theory Spec2Isabelle
  imports Main "HOL-Library.Word" "HOL-Library.While_Combinator"
begin

unbundle bit_operations_syntax

section \<open>teensy-loader: the Intel HEX reader and the programming run\<close>

text \<open>
  A shallow embedding of \<^verbatim>\<open>src/teensy-loader.c\<close>. The global variables of the C file
  become fields of records that every function takes and returns. Values of the C type
  \<^verbatim>\<open>int\<close> / \<^verbatim>\<open>int32_t\<close> are \<^typ>\<open>int\<close>; the only unsigned arithmetic of the
  program, on \<^verbatim>\<open>uint32_t extended_addr\<close>, is done on \<^typ>\<open>32 word\<close>, so that its
  wrap-around is the machine's. A C string is the list of its characters up to, and
  without, the terminating NUL.
\<close>

type_synonym u8 = "8 word"
type_synonym u32 = "32 word"

subsection \<open>The library call \<^verbatim>\<open>sscanf(ptr, "%0Nx", &v)\<close>\<close>

text \<open>
  The parser reads every field with \<^verbatim>\<open>sscanf\<close> and the conversions \<^verbatim>\<open>%02x\<close> and
  \<^verbatim>\<open>%04x\<close>. The model follows the GNU C library, which the program is built
  against on Linux: the conversion skips white space; it then takes an optional sign and,
  while the field width N is not used up, a leading \<^verbatim>\<open>0\<close>, an \<^verbatim>\<open>x\<close> or \<^verbatim>\<open>X\<close>
  after that \<^verbatim>\<open>0\<close>, and hexadecimal digits. The call returns \<^verbatim>\<open>EOF\<close> (-1) when
  the string ends before anything but white space was seen, 0 when no digit was taken
  (nothing, or a sign alone), and 1 when a value was stored. After the prefix \<^verbatim>\<open>0x\<close>
  the leading \<^verbatim>\<open>0\<close> counts as a digit: with no digit behind it within the width the
  value stored is 0. A value with a minus sign is stored negated.
\<close>

datatype scan = ScanEOF | ScanFail | ScanOK int

definition isspace :: "char \<Rightarrow> bool" where
  "isspace c \<longleftrightarrow> c = CHR '' '' \<or> (9 \<le> (of_char c :: nat) \<and> (of_char c :: nat) \<le> 13)"

definition isxdigit :: "char \<Rightarrow> bool" where
  "isxdigit c \<longleftrightarrow>
     (48 \<le> (of_char c :: nat) \<and> (of_char c :: nat) \<le> 57) \<or>
     (65 \<le> (of_char c :: nat) \<and> (of_char c :: nat) \<le> 70) \<or>
     (97 \<le> (of_char c :: nat) \<and> (of_char c :: nat) \<le> 102)"

definition xdigit_val :: "char \<Rightarrow> int" where
  "xdigit_val c =
     (if (of_char c :: nat) \<le> 57 then int (of_char c) - 48
      else if (of_char c :: nat) \<le> 70 then int (of_char c) - 55
      else int (of_char c) - 87)"

definition hex_value :: "string \<Rightarrow> int" where
  "hex_value ds = foldl (\<lambda>acc c. 16 * acc + xdigit_val c) 0 ds"

definition scan_digits :: "nat \<Rightarrow> string \<Rightarrow> int option" where
  "scan_digits w str =
     (if takeWhile isxdigit (take w str) = [] then None
      else Some (hex_value (takeWhile isxdigit (take w str))))"

fun scan_unsigned :: "nat \<Rightarrow> string \<Rightarrow> int option" where
  "scan_unsigned w (c # d # r) =
     (if 2 \<le> w \<and> c = CHR ''0'' \<and> (d = CHR ''x'' \<or> d = CHR ''X'')
      then Some (hex_value (takeWhile isxdigit (take (w - 2) r)))
      else scan_digits w (c # d # r))"
| "scan_unsigned w str = scan_digits w str"

definition sscanf_x :: "nat \<Rightarrow> string \<Rightarrow> scan" where
  "sscanf_x w str =
     (case dropWhile isspace str of
        [] \<Rightarrow> ScanEOF
      | c # r \<Rightarrow>
          if c = CHR ''-'' then
            (case scan_unsigned (w - 1) r of None \<Rightarrow> ScanFail | Some v \<Rightarrow> ScanOK (- v))
          else if c = CHR ''+'' then
            (case scan_unsigned (w - 1) r of None \<Rightarrow> ScanFail | Some v \<Rightarrow> ScanOK v)
          else
            (case scan_unsigned w (c # r) of None \<Rightarrow> ScanFail | Some v \<Rightarrow> ScanOK v))"

subsection \<open>The firmware image and the parser state\<close>

text \<open>
  \<^verbatim>\<open>firmware_image\<close> and \<^verbatim>\<open>firmware_mask\<close> are arrays of \<^verbatim>\<open>MAX_MEMORY_SIZE\<close>
  bytes; they are functions from the index here, and an access at an index outside the
  array is an outcome of its own, never a read of the function there.
\<close>

definition MAX_MEMORY_SIZE :: nat where
  "MAX_MEMORY_SIZE = 0x1000000"

record ihex_state =
  firmware_image :: "nat \<Rightarrow> u8"
  firmware_mask :: "nat \<Rightarrow> u8"
  end_record_seen :: int
  byte_count :: int
  extended_addr :: u32

record profile =
  code_size :: int
  block_size :: int

text \<open>
  What C leaves undefined and the parser can reach: it goes on with an \<^verbatim>\<open>int\<close> that
  \<^verbatim>\<open>sscanf\<close> never stored when the call returned \<^verbatim>\<open>EOF\<close> (the tests are
  \<^verbatim>\<open>!sscanf(...)\<close>), it can index the arrays outside their bounds, and it can move
  \<^verbatim>\<open>ptr\<close> beyond the terminator of the line.
\<close>

datatype undefined_behaviour = UninitRead | OutOfBounds | ReadPastEnd

type_synonym parse_result = "undefined_behaviour + (int \<times> ihex_state)"

subsection \<open>\<^verbatim>\<open>ihex_parse_line\<close>\<close>

text \<open>
  The body shared by the two extended-address blocks (\<^verbatim>\<open>code == 2\<close> and
  \<^verbatim>\<open>code == 4\<close>, each with \<^verbatim>\<open>len == 2\<close>): the value and the checksum are scanned and
  compared. \<open>Inr None\<close> is one of the three \<^verbatim>\<open>return 1\<close> inside the block,
  \<open>Inr (Some i)\<close> reaches the assignment to \<^verbatim>\<open>extended_addr\<close>.
\<close>

definition ext_value :: "string \<Rightarrow> int \<Rightarrow> undefined_behaviour + int option" where
  "ext_value ptr sum0 =
     (case sscanf_x 4 ptr of
        ScanFail \<Rightarrow> Inr None
      | ScanEOF \<Rightarrow> Inl UninitRead
      | ScanOK i \<Rightarrow>
          (case sscanf_x 2 (drop 4 ptr) of
             ScanFail \<Rightarrow> Inr None
           | ScanEOF \<Rightarrow> Inl UninitRead
           | ScanOK cksum \<Rightarrow>
               if (((sum0 + ((drop_bit 8 i AND 255) + (i AND 255))) AND 255) + (cksum AND 255)) AND 255 \<noteq> 0
               then Inr None
               else Inr (Some i)))"

text \<open>
  The assignment \<^verbatim>\<open>extended_addr = i << 16\<close> and the correction by 0x60000000 after
  it. \<^verbatim>\<open>i\<close> is an \<^verbatim>\<open>int\<close> and \<^verbatim>\<open>extended_addr\<close> a \<^verbatim>\<open>uint32_t\<close>: the model keeps the
  low 32 bits of the shifted value, which is what the compiled program stores (for
  \<^verbatim>\<open>i\<close> from 0x8000 on the shifted value does not fit an \<^verbatim>\<open>int\<close>, and the C standard
  leaves the shift itself undefined). The comparisons are unsigned: the sum
  \<^verbatim>\<open>0x60000000 + code_size\<close> is converted to \<^verbatim>\<open>uint32_t\<close>.
\<close>

definition linear_base :: "profile \<Rightarrow> int \<Rightarrow> u32" where
  "linear_base p i =
     (let e = push_bit 16 (word_of_int i :: u32) in
      if code_size p > 1048576 \<and> block_size p \<ge> 1024 \<and>
         e \<ge> 0x60000000 \<and> e < word_of_int (0x60000000 + code_size p)
      then e - 0x60000000
      else e)"

text \<open>
  The data loop \<^verbatim>\<open>while (num != len)\<close> and the checksum test after it. \<open>base\<close> is
  \<^verbatim>\<open>addr + extended_addr\<close>, computed in \<^verbatim>\<open>uint32_t\<close> as C does; \<open>ptr\<close> is
  \<open>None\<close> once \<^verbatim>\<open>ptr += 2\<close> has stepped over the terminator.
\<close>

function data_loop :: "int \<Rightarrow> u32 \<Rightarrow> string option \<Rightarrow> int \<Rightarrow> int \<Rightarrow> ihex_state \<Rightarrow> parse_result" where
  "data_loop len base ptr num sum0 s =
     (case ptr of
        None \<Rightarrow> Inl ReadPastEnd
      | Some str \<Rightarrow>
          if num \<noteq> len then
            (case sscanf_x 2 str of
               ScanOK i \<Rightarrow>
                 if MAX_MEMORY_SIZE \<le> unat (base + word_of_int num) then Inl OutOfBounds
                 else if num + 1 \<ge> 256 then
                   Inr (0, s\<lparr>firmware_image := (firmware_image s)
                                 (unat (base + word_of_int num) := word_of_int (i AND 255)),
                              firmware_mask := (firmware_mask s)
                                 (unat (base + word_of_int num) := 1)\<rparr>)
                 else
                   data_loop len base
                     (if 2 \<le> length str then Some (drop 2 str) else None)
                     (num + 1) (sum0 + (i AND 255))
                     (s\<lparr>firmware_image := (firmware_image s)
                           (unat (base + word_of_int num) := word_of_int (i AND 255)),
                        firmware_mask := (firmware_mask s)
                           (unat (base + word_of_int num) := 1)\<rparr>)
             | _ \<Rightarrow> Inr (0, s))
          else
            (case sscanf_x 2 str of
               ScanFail \<Rightarrow> Inr (0, s)
             | ScanEOF \<Rightarrow> Inl UninitRead
             | ScanOK cksum \<Rightarrow>
                 if ((sum0 AND 255) + (cksum AND 255)) AND 255 \<noteq> 0 then Inr (0, s)
                 else Inr (1, s)))"
  by pat_completeness auto
termination
  by (relation "measure (\<lambda>(len, base, ptr, num, sum0, s). nat (256 - num))") auto

declare data_loop.simps [simp del]

text \<open>
  \<^verbatim>\<open>ihex_parse_line\<close> in two parts: the checks on the head of the line, up to the
  address-range gate, and (\<open>parse_record\<close>) what follows the gate, from
  \<^verbatim>\<open>sum = (len & 255) + ...\<close> on.
\<close>

definition header_sum :: "int \<Rightarrow> int \<Rightarrow> int \<Rightarrow> int" where
  "header_sum len addr code =
     (len AND 255) + (drop_bit 8 addr AND 255) + (addr AND 255) + (code AND 255)"

definition parse_record :: "profile \<Rightarrow> string \<Rightarrow> int \<Rightarrow> int \<Rightarrow> int \<Rightarrow> ihex_state \<Rightarrow> parse_result" where
  "parse_record p ptr len addr code s =
     (if code \<noteq> 0 then
        (if code = 1 then Inr (1, s\<lparr>end_record_seen := 1\<rparr>)
         else if code = 2 \<and> len = 2 then
           (case ext_value ptr (header_sum len addr code) of
              Inl u \<Rightarrow> Inl u
            | Inr None \<Rightarrow> Inr (1, s)
            | Inr (Some i) \<Rightarrow> Inr (1, s\<lparr>extended_addr := push_bit 4 (word_of_int i)\<rparr>))
         else if code = 4 \<and> len = 2 then
           (case ext_value ptr (header_sum len addr code) of
              Inl u \<Rightarrow> Inl u
            | Inr None \<Rightarrow> Inr (1, s)
            | Inr (Some i) \<Rightarrow> Inr (1, s\<lparr>extended_addr := linear_base p i\<rparr>))
         else Inr (1, s))
      else
        data_loop len (word_of_int addr + extended_addr s) (Some ptr) 0
          (header_sum len addr code) (s\<lparr>byte_count := byte_count s + len\<rparr>))"

definition ihex_parse_line :: "profile \<Rightarrow> string \<Rightarrow> ihex_state \<Rightarrow> parse_result" where
  "ihex_parse_line p line s =
     (if take 1 line \<noteq> '':'' then Inr (0, s)
      else if length line < 11 then Inr (0, s)
      else
        (case sscanf_x 2 (drop 1 line) of
           ScanFail \<Rightarrow> Inr (0, s)
         | ScanEOF \<Rightarrow> Inl UninitRead
         | ScanOK len \<Rightarrow>
             if int (length line) < 11 + len * 2 then Inr (0, s)
             else
               (case sscanf_x 4 (drop 3 line) of
                  ScanFail \<Rightarrow> Inr (0, s)
                | ScanEOF \<Rightarrow> Inl UninitRead
                | ScanOK addr \<Rightarrow>
                    (case sscanf_x 2 (drop 7 line) of
                       ScanFail \<Rightarrow> Inr (0, s)
                     | ScanEOF \<Rightarrow> Inl UninitRead
                     | ScanOK code \<Rightarrow>
                         if word_of_int addr + extended_addr s + word_of_int len
                              \<ge> (0x1000000 :: u32)
                         then Inr (0, s)
                         else parse_record p (drop 9 line) len addr code s))))"

subsection \<open>\<^verbatim>\<open>ihex_read\<close>\<close>




definition reset_state :: ihex_state where
  "reset_state =
     \<lparr>firmware_image = (\<lambda>i. 0xFF), firmware_mask = (\<lambda>i. 0), end_record_seen = 0,
      byte_count = 0, extended_addr = 0\<rparr>"






subsection \<open>Queries on the image\<close>

function bytes_in_range_loop :: "ihex_state \<Rightarrow> int \<Rightarrow> int \<Rightarrow> int" where
  "bytes_in_range_loop s i end =
     (if i \<le> end then
        (if firmware_mask s (nat i) \<noteq> 0 then 1 else bytes_in_range_loop s (i + 1) end)
      else 0)"
  by pat_completeness auto
termination
  by (relation "measure (\<lambda>(s, i, end). nat (end + 1 - i))") auto

declare bytes_in_range_loop.simps [simp del]

definition ihex_bytes_in_range :: "ihex_state \<Rightarrow> int \<Rightarrow> int \<Rightarrow> int" where
  "ihex_bytes_in_range s begin end =
     (if begin < 0 \<or> begin \<ge> int MAX_MEMORY_SIZE \<or> end < 0 \<or> end \<ge> int MAX_MEMORY_SIZE then 0
      else bytes_in_range_loop s begin end)"

function get_data_loop :: "ihex_state \<Rightarrow> int \<Rightarrow> int \<Rightarrow> int \<Rightarrow> u8 list" where
  "get_data_loop s addr len i =
     (if i < len then
        (if firmware_mask s (nat addr) \<noteq> 0 then firmware_image s (nat addr) else 255)
          # get_data_loop s (addr + 1) len (i + 1)
      else [])"
  by pat_completeness auto
termination
  by (relation "measure (\<lambda>(s, addr, len, i). nat (len - i))") auto

declare get_data_loop.simps [simp del]

text \<open>The result is the content of \<^verbatim>\<open>bytes[0 .. len - 1]\<close> after the call.\<close>

definition ihex_get_data :: "ihex_state \<Rightarrow> int \<Rightarrow> int \<Rightarrow> u8 list" where
  "ihex_get_data s addr len =
     (if addr < 0 \<or> len < 0 \<or> addr + len \<ge> int MAX_MEMORY_SIZE then replicate (nat len) 255
      else get_data_loop s addr len 0)"

function memory_is_blank_loop :: "ihex_state \<Rightarrow> int \<Rightarrow> int \<Rightarrow> int" where
  "memory_is_blank_loop s addr bsize =
     (if bsize \<noteq> 0 \<and> addr < int MAX_MEMORY_SIZE then
        (if firmware_mask s (nat addr) \<noteq> 0 \<and> firmware_image s (nat addr) \<noteq> 255 then 0
         else memory_is_blank_loop s (addr + 1) (bsize - 1))
      else 1)"
  by pat_completeness auto
termination
  by (relation "measure (\<lambda>(s, addr, bsize). nat (int MAX_MEMORY_SIZE - addr))") auto

declare memory_is_blank_loop.simps [simp del]

definition ihex_memory_is_blank :: "ihex_state \<Rightarrow> int \<Rightarrow> int \<Rightarrow> int" where
  "ihex_memory_is_blank s addr bsize =
     (if addr < 0 \<or> addr > int MAX_MEMORY_SIZE then 1 else memory_is_blank_loop s addr bsize)"

subsection \<open>\<^verbatim>\<open>main\<close>: finding the bootloader\<close>

text \<open>
  The USB bus is outside the program. \<open>usb_world\<close> says what the bus answers during
  one pass of the loop \<^verbatim>\<open>while (1)\<close>: whether \<^verbatim>\<open>open_usb_device\<close> finds and opens
  the bootloader (0x16C0:0x0478), the rebootor (0x16C0:0x0477) and the serial device
  (0x16C0:0x0483), and what \<^verbatim>\<open>usb_control_msg\<close> returns on the latter two. The run
  is given one \<open>usb_world\<close> for each pass.
\<close>

record usb_world =
  bootloader_opens :: bool
  rebootor_opens :: bool
  rebootor_msg :: int
  serial_opens :: bool
  serial_msg :: int

definition teensy_open :: "usb_world \<Rightarrow> int" where
  "teensy_open w = (if bootloader_opens w then 1 else 0)"

definition teensy_hard_reboot :: "usb_world \<Rightarrow> int" where
  "teensy_hard_reboot w =
     (if \<not> rebootor_opens w then 0 else if rebootor_msg w < 0 then 0 else 1)"

definition teensy_soft_reboot :: "usb_world \<Rightarrow> int" where
  "teensy_soft_reboot w =
     (if \<not> serial_opens w then 0 else if serial_msg w < 0 then 0 else 1)"

datatype usb_call = Open int | HardReboot int | SoftReboot int | Sleep nat

text \<open>
  The options and locals the loop reads and writes, the calls made so far with their
  results, the number of passes begun, and how the loop was left: \<open>found\<close> by
  \<^verbatim>\<open>break\<close>, \<open>exited\<close> by \<^verbatim>\<open>die\<close> with its message.
\<close>

record discovery =
  wait_for_device_to_appear :: bool
  teensy_hard_reboot_device :: bool
  teensy_soft_reboot_device :: bool
  waited :: bool
  calls :: "usb_call list"
  passes :: nat
  found :: bool
  exited :: "string option"

definition hard_reboot_stage :: "usb_world \<Rightarrow> discovery \<Rightarrow> discovery" where
  "hard_reboot_stage w d =
     (if teensy_hard_reboot_device d then
        (if teensy_hard_reboot w = 0 then
           d\<lparr>calls := calls d @ [HardReboot 0], exited := Some ''unable to find rebootor''\<rparr>
         else
           d\<lparr>calls := calls d @ [HardReboot (teensy_hard_reboot w)],
             teensy_hard_reboot_device := False, wait_for_device_to_appear := True\<rparr>)
      else d)"

definition soft_reboot_stage :: "usb_world \<Rightarrow> discovery \<Rightarrow> discovery" where
  "soft_reboot_stage w d =
     (if teensy_soft_reboot_device d then
        d\<lparr>calls := calls d @ [SoftReboot (teensy_soft_reboot w)],
          teensy_soft_reboot_device := False, wait_for_device_to_appear := True\<rparr>
      else d)"

definition wait_stage :: "discovery \<Rightarrow> discovery" where
  "wait_stage d =
     (if \<not> wait_for_device_to_appear d then
        d\<lparr>exited := Some ''unable to open device (try -w option)''\<rparr>
      else d\<lparr>waited := True, calls := calls d @ [Sleep 250000]\<rparr>)"

definition discovery_pass :: "(nat \<Rightarrow> usb_world) \<Rightarrow> discovery \<Rightarrow> discovery" where
  "discovery_pass usb d =
     (if teensy_open (usb (passes d)) \<noteq> 0 then
        d\<lparr>calls := calls d @ [Open (teensy_open (usb (passes d)))],
          passes := Suc (passes d), found := True\<rparr>
      else
        (case exited (hard_reboot_stage (usb (passes d))
                 (d\<lparr>calls := calls d @ [Open 0], passes := Suc (passes d)\<rparr>)) of
           Some msg \<Rightarrow>
             hard_reboot_stage (usb (passes d))
               (d\<lparr>calls := calls d @ [Open 0], passes := Suc (passes d)\<rparr>)
         | None \<Rightarrow>
             wait_stage (soft_reboot_stage (usb (passes d))
               (hard_reboot_stage (usb (passes d))
                 (d\<lparr>calls := calls d @ [Open 0], passes := Suc (passes d)\<rparr>)))))"

text \<open>
  The loop has no bound: with \<^verbatim>\<open>-w\<close> it polls until the bootloader appears.
  \<open>None\<close> is the run that never leaves the loop.
\<close>

definition discover :: "(nat \<Rightarrow> usb_world) \<Rightarrow> discovery \<Rightarrow> discovery option" where
  "discover usb d0 =
     while_option (\<lambda>d. \<not> found d \<and> exited d = None) (discovery_pass usb) d0"

definition start_discovery :: "bool \<Rightarrow> bool \<Rightarrow> bool \<Rightarrow> discovery" where
  "start_discovery w r sft =
     \<lparr>wait_for_device_to_appear = w, teensy_hard_reboot_device = r,
      teensy_soft_reboot_device = sft, waited = False, calls = [], passes = 0,
      found = False, exited = None\<rparr>"

subsection \<open>\<^verbatim>\<open>main\<close>: encoding and writing the blocks\<close>

text \<open>
  One block, as the \<^verbatim>\<open>if\<close> chain of the programming loop fills \<^verbatim>\<open>buf\<close>: the bytes
  stored from \<^verbatim>\<open>buf[0]\<close> on, and \<^verbatim>\<open>write_size\<close>. \<open>None\<close> is
  \<^verbatim>\<open>die("unknown code/block size")\<close>.
\<close>

definition encode_block :: "profile \<Rightarrow> ihex_state \<Rightarrow> int \<Rightarrow> (u8 list \<times> int) option" where
  "encode_block p s addr =
     (if block_size p \<le> 256 \<and> code_size p < 0x10000 then
        Some (word_of_int (addr AND 255) # word_of_int (drop_bit 8 addr AND 255)
                # ihex_get_data s addr (block_size p),
              block_size p + 2)
      else if block_size p = 256 then
        Some (word_of_int (drop_bit 8 addr AND 255) # word_of_int (drop_bit 16 addr AND 255)
                # ihex_get_data s addr (block_size p),
              block_size p + 2)
      else if block_size p = 512 \<or> block_size p = 1024 then
        Some (word_of_int (addr AND 255) # word_of_int (drop_bit 8 addr AND 255)
                # word_of_int (drop_bit 16 addr AND 255)
                # replicate 61 0 @ ihex_get_data s addr (block_size p),
              block_size p + 64)
      else None)"

text \<open>
  A call of \<^verbatim>\<open>teensy_write(buf, write_size, timeout)\<close>, with the address of the block
  it carries; the timeout (5.0 or 0.5 seconds) is in milliseconds. Whether the k-th call
  succeeds is the device's answer, a parameter of the run.
\<close>

datatype write_call = Write int "u8 list" int nat

fun write_addr :: "write_call \<Rightarrow> int" where
  "write_addr (Write a buf n t) = a"

record programming =
  cur_addr :: int
  first_block :: int
  write_size :: int
  writes :: "write_call list"
  failed :: "string option"

definition program_block :: "profile \<Rightarrow> ihex_state \<Rightarrow> (nat \<Rightarrow> bool) \<Rightarrow> programming \<Rightarrow> programming" where
  "program_block p s device g =
     (if first_block g = 0 \<and>
         ihex_bytes_in_range s (cur_addr g) (cur_addr g + block_size p - 1) = 0
      then g\<lparr>cur_addr := cur_addr g + block_size p\<rparr>
      else if first_block g = 0 \<and> ihex_memory_is_blank s (cur_addr g) (block_size p) \<noteq> 0
      then g\<lparr>cur_addr := cur_addr g + block_size p\<rparr>
      else
        (case encode_block p s (cur_addr g) of
           None \<Rightarrow> g\<lparr>failed := Some ''unknown code/block size''\<rparr>
         | Some (buf, n) \<Rightarrow>
             if device (length (writes g)) then
               g\<lparr>writes := writes g
                    @ [Write (cur_addr g) buf n (if first_block g \<noteq> 0 then 5000 else 500)],
                 write_size := n, first_block := 0, cur_addr := cur_addr g + block_size p\<rparr>
             else
               g\<lparr>writes := writes g
                    @ [Write (cur_addr g) buf n (if first_block g \<noteq> 0 then 5000 else 500)],
                 write_size := n, failed := Some ''error writing to teensy''\<rparr>))"

text \<open>
  \<^verbatim>\<open>for (addr = 0; addr < code_size; addr += block_size)\<close>; it does not end when
  \<^verbatim>\<open>block_size\<close> is not positive, and \<open>None\<close> is that run.
\<close>

definition program_loop :: "profile \<Rightarrow> ihex_state \<Rightarrow> (nat \<Rightarrow> bool) \<Rightarrow> programming \<Rightarrow> programming option" where
  "program_loop p s device g0 =
     while_option (\<lambda>g. failed g = None \<and> cur_addr g < code_size p) (program_block p s device) g0"

definition start_programming :: "profile \<Rightarrow> programming" where
  "start_programming p =
     \<lparr>cur_addr = 0, first_block = 1,
      write_size = (if block_size p = 512 \<or> block_size p = 1024 then block_size p + 64
                    else block_size p + 2),
      writes = [], failed = None\<rparr>"

section \<open>Notions of the specification\<close>

subsection \<open>Hex lines\<close>

text \<open>
  A record as the specification writes it, \<^verbatim>\<open>:LLAAAATT[DD...]CC\<close>: a list of bytes, each
  a pair of hex digit characters, in the order length, address high, address low, type,
  data, checksum. \<open>hex_line bs tail\<close> is the text of the line, \<open>tail\<close> what follows the
  checksum (a line end, or nothing).
\<close>

definition xpair :: "char \<times> char \<Rightarrow> bool" where
  "xpair q \<longleftrightarrow> isxdigit (fst q) \<and> isxdigit (snd q)"

definition byte_of :: "char \<times> char \<Rightarrow> int" where
  "byte_of q = 16 * xdigit_val (fst q) + xdigit_val (snd q)"

definition hex_text :: "(char \<times> char) list \<Rightarrow> string" where
  "hex_text qs = concat (map (\<lambda>q. [fst q, snd q]) qs)"

definition hex_line :: "(char \<times> char) list \<Rightarrow> string \<Rightarrow> string" where
  "hex_line qs tail = CHR '':'' # hex_text qs @ tail"

definition record_addr :: "(char \<times> char) list \<Rightarrow> int" where
  "record_addr bs = 256 * byte_of (bs ! 1) + byte_of (bs ! 2)"

definition record_data :: "(char \<times> char) list \<Rightarrow> int list" where
  "record_data bs = map byte_of (butlast (drop 4 bs))"

text \<open>
  A structurally well-formed data record, for the extended address base \<open>ext\<close>: hex
  digits only, as many data bytes as the length byte declares, type 00, and the last
  byte below \<^verbatim>\<open>MAX_MEMORY_SIZE\<close>.
\<close>

definition data_record :: "u32 \<Rightarrow> (char \<times> char) list \<Rightarrow> bool" where
  "data_record ext bs \<longleftrightarrow>
     list_all xpair bs \<and> 5 \<le> length bs \<and> byte_of (bs ! 0) = int (length bs) - 5 \<and>
     byte_of (bs ! 3) = 0 \<and>
     unat ext + nat (record_addr bs) + (length bs - 5) < MAX_MEMORY_SIZE"

text \<open>The checksum invariant: all bytes of the record add up to 0 modulo 256.\<close>

definition checksum_ok :: "(char \<times> char) list \<Rightarrow> bool" where
  "checksum_ok bs \<longleftrightarrow> sum_list (map byte_of bs) mod 256 = 0"

text \<open>Bytes stored at consecutive addresses from \<open>a\<close>, each with its flag set.\<close>

fun store_bytes :: "nat \<Rightarrow> int list \<Rightarrow> ihex_state \<Rightarrow> ihex_state" where
  "store_bytes a [] s = s"
| "store_bytes a (b # bs) s =
     store_bytes (Suc a) bs
       (s\<lparr>firmware_image := (firmware_image s)(a := word_of_int b),
          firmware_mask := (firmware_mask s)(a := 1)\<rparr>)"


text \<open>The value \<^verbatim>\<open>ihex_parse_line\<close> returns, when it returns.\<close>

definition return_value :: "parse_result \<Rightarrow> int option" where
  "return_value r = (case r of Inl u \<Rightarrow> None | Inr (v, s) \<Rightarrow> Some v)"

subsection \<open>Block formats\<close>

definition small_target :: "profile \<Rightarrow> bool" where
  "small_target p \<longleftrightarrow> block_size p \<le> 256 \<and> code_size p < 0x10000"

definition medium_target :: "profile \<Rightarrow> bool" where
  "medium_target p \<longleftrightarrow> block_size p = 256 \<and> code_size p \<ge> 0x10000"

definition large_target :: "profile \<Rightarrow> bool" where
  "large_target p \<longleftrightarrow> block_size p = 512 \<or> block_size p = 1024"

definition addr_byte :: "nat \<Rightarrow> int \<Rightarrow> u8" where
  "addr_byte k a = word_of_int (a div 256 ^ k mod 256)"


subsection \<open>States used as examples\<close>

text \<open>
  The state after \<^verbatim>\<open>:0200000400FFFB\<close> and \<^verbatim>\<open>:01FFFE0041C1\<close> were read into the
  reset image: one byte, 0x41, at address 0xFFFFFE.
\<close>

definition top_byte_written :: ihex_state where
  "top_byte_written =
     reset_state\<lparr>extended_addr := 0xFF0000, byte_count := 1,
       firmware_image := (firmware_image reset_state)(0xFFFFFE := 0x41),
       firmware_mask := (firmware_mask reset_state)(0xFFFFFE := 1)\<rparr>"

subsection \<open>Fields that are not numbers, and validated extended-address records\<close>



subsection \<open>Calls of \<^verbatim>\<open>teensy_hard_reboot\<close> in a run\<close>

fun is_hard_reboot :: "usb_call \<Rightarrow> bool" where
  "is_hard_reboot (HardReboot r) = True"
| "is_hard_reboot c = False"

definition hard_reboots :: "discovery \<Rightarrow> usb_call list" where
  "hard_reboots d = filter is_hard_reboot (calls d)"

subsection \<open>Blocks that hold data, and the profiles of the MCU table\<close>

text \<open>
  A block holds data when one of its addresses was written with a value other than 0xFF:
  then it has written bytes, and they are not all 0xFF.
\<close>

definition block_has_data :: "ihex_state \<Rightarrow> int \<Rightarrow> int \<Rightarrow> bool" where
  "block_has_data s addr bsize \<longleftrightarrow>
     list_ex (\<lambda>a. firmware_mask s (nat a) \<noteq> 0 \<and> firmware_image s (nat a) \<noteq> 255)
       [addr .. addr + bsize - 1]"

text \<open>
  What holds of the programming loop before each iteration: until the first call of
  \<^verbatim>\<open>teensy_write\<close> nothing was written and \<^verbatim>\<open>addr\<close> is 0; the first call carries block
  0; every later call carries a block that holds data.
\<close>

definition write_invariant :: "profile \<Rightarrow> ihex_state \<Rightarrow> programming \<Rightarrow> bool" where
  "write_invariant p s g \<longleftrightarrow>
     (first_block g \<noteq> 0 \<and> failed g = None \<longrightarrow> writes g = [] \<and> cur_addr g = 0) \<and>
     (first_block g = 0 \<or> failed g \<noteq> None \<longrightarrow> writes g \<noteq> []) \<and>
     (writes g \<noteq> [] \<longrightarrow>
        (\<exists>buf n. encode_block p s 0 = Some (buf, n) \<and> hd (writes g) = Write 0 buf n 5000)) \<and>
     list_all (\<lambda>w. block_has_data s (write_addr w) (block_size p)) (tl (writes g)) \<and>
     0 \<le> cur_addr g"

text \<open>
  The table \<^verbatim>\<open>MCUs\<close>, from which \<^verbatim>\<open>read_mcu\<close> takes \<^verbatim>\<open>code_size\<close> and
  \<^verbatim>\<open>block_size\<close>. A profile is programmable when both are positive, the programming
  loop has a block format for it, and its \<^verbatim>\<open>int32_t\<close> address arithmetic does not
  overflow.
\<close>

definition MCUs :: "(string \<times> int \<times> int) list" where
  "MCUs =
     [(''at90usb162'', 15872, 128),
      (''atmega32u4'', 32256, 128),
      (''at90usb646'', 64512, 256),
      (''at90usb1286'', 130048, 256),
      (''mkl26z64'', 63488, 512),
      (''mk20dx128'', 131072, 1024),
      (''mk20dx256'', 262144, 1024),
      (''mk66fx1m0'', 1048576, 1024),
      (''mk64fx512'', 524288, 1024),
      (''imxrt1062'', 2031616, 1024),
      (''TEENSY2'', 32256, 128),
      (''TEENSY2PP'', 130048, 256),
      (''TEENSYLC'', 63488, 512),
      (''TEENSY30'', 131072, 1024),
      (''TEENSY31'', 262144, 1024),
      (''TEENSY32'', 262144, 1024),
      (''TEENSY35'', 524288, 1024),
      (''TEENSY36'', 1048576, 1024),
      (''TEENSY40'', 2031616, 1024),
      (''TEENSY41'', 8126464, 1024),
      (''TEENSY_MICROMOD'', 16515072, 1024)]"

definition mcu_profile :: "string \<times> int \<times> int \<Rightarrow> profile" where
  "mcu_profile m = \<lparr>code_size = fst (snd m), block_size = snd (snd m)\<rparr>"

definition programmable :: "profile \<Rightarrow> bool" where
  "programmable p \<longleftrightarrow>
     0 < code_size p \<and> 0 < block_size p \<and>
     (small_target p \<or> medium_target p \<or> large_target p) \<and>
     code_size p + block_size p < 2 ^ 31"

text \<open>
  An image with 0x41 written at address 8 and 0xFF written at address 12.
\<close>

definition sparse_image :: ihex_state where
  "sparse_image =
     reset_state\<lparr>byte_count := 2,
       firmware_image := (firmware_image reset_state)(8 := 0x41, 12 := 0xFF),
       firmware_mask := (firmware_mask reset_state)(8 := 1, 12 := 1)\<rparr>"

section \<open>Lemmas\<close>

subsection \<open>Scanning hex digits\<close>

lemma isxdigit_plain:
  assumes "isxdigit c"
  shows "\<not> isspace c" "c \<noteq> CHR ''-''" "c \<noteq> CHR ''+''" "c \<noteq> CHR ''x''" "c \<noteq> CHR ''X''"
  using assms by (auto simp: isxdigit_def isspace_def)

lemma xdigit_val_range: "isxdigit c \<Longrightarrow> 0 \<le> xdigit_val c \<and> xdigit_val c < 16"
  by (auto simp: isxdigit_def xdigit_val_def)

lemma byte_of_range: "xpair q \<Longrightarrow> 0 \<le> byte_of q \<and> byte_of q < 256"
  using xdigit_val_range [of "fst q"] xdigit_val_range [of "snd q"]
  by (auto simp: xpair_def byte_of_def)

lemma sscanf_x_2_pair:
  "xpair q \<Longrightarrow> sscanf_x 2 (fst q # snd q # r) = ScanOK (byte_of q)"
  by (simp add: sscanf_x_def xpair_def isxdigit_plain scan_digits_def hex_value_def byte_of_def)

lemma sscanf_x_4_pairs:
  "xpair q \<Longrightarrow> xpair q' \<Longrightarrow>
   sscanf_x 4 (fst q # snd q # fst q' # snd q' # r) = ScanOK (256 * byte_of q + byte_of q')"
  by (simp add: sscanf_x_def xpair_def isxdigit_plain scan_digits_def hex_value_def byte_of_def)

lemma and_255: "(x :: int) AND 255 = x mod 256"
proof -
  have "(255 :: int) = mask 8" by (simp add: mask_eq_exp_minus_1)
  then show ?thesis by (simp only: flip: take_bit_eq_mask) (simp add: take_bit_eq_mod)
qed

lemma unat_base_plus:
  assumes "0 \<le> num" "unat (base :: u32) + nat num < 2 ^ 32"
  shows "unat (base + word_of_int num) = unat base + nat num"
proof -
  have "word_of_int num = (of_nat (nat num) :: u32)" using assms(1) by simp
  moreover have "unat (base + of_nat (nat num)) = unat base + nat num"
    using assms(2) by (simp add: unat_word_ariths unat_of_nat)
  ultimately show ?thesis by simp
qed

lemma data_loop_pairs:
  assumes "list_all xpair ds" "0 \<le> num" "num + int (length ds) \<le> len" "len < 256"
    "unat base + nat len < MAX_MEMORY_SIZE"
  shows "data_loop len base (Some (hex_text ds @ rest)) num sm s =
         data_loop len base (Some rest) (num + int (length ds))
           (sm + sum_list (map byte_of ds))
           (store_bytes (unat base + nat num) (map byte_of ds) s)"
  using assms
proof (induction ds arbitrary: num sm s)
  case Nil
  then show ?case by (simp add: hex_text_def)
next
  case (Cons q qs)
  have q: "xpair q" and qs: "list_all xpair qs" using Cons.prems(1) by simp_all
  have ne: "num \<noteq> len" and lt: "\<not> 255 \<le> num" using Cons.prems by simp_all
  have idx: "unat (base + word_of_int num) = unat base + nat num"
    using Cons.prems by (intro unat_base_plus) (simp_all add: MAX_MEMORY_SIZE_def)
  have inb: "\<not> MAX_MEMORY_SIZE \<le> unat base + nat num"
    using Cons.prems by simp
  have b: "byte_of q AND 255 = byte_of q"
    using byte_of_range [OF q] by (simp add: and_255)
  have shape: "hex_text (q # qs) @ rest = fst q # snd q # (hex_text qs @ rest)"
    by (simp add: hex_text_def)
  have step: "data_loop len base (Some (hex_text (q # qs) @ rest)) num sm s =
      data_loop len base (Some (hex_text qs @ rest)) (num + 1) (sm + byte_of q)
        (s\<lparr>firmware_image := (firmware_image s)(unat base + nat num := word_of_int (byte_of q)),
           firmware_mask := (firmware_mask s)(unat base + nat num := 1)\<rparr>)"
    unfolding shape
    by (subst data_loop.simps) (simp add: ne lt idx inb b sscanf_x_2_pair [OF q])
  have nat1: "unat base + nat (num + 1) = Suc (unat base + nat num)"
    using Cons.prems(2) by simp
  show ?case
    unfolding step
    using Cons.IH [OF qs, of "num + 1"] Cons.prems
    by (simp add: nat_add_distrib ac_simps)
qed

lemma hex_text_append: "hex_text (xs @ ys) = hex_text xs @ hex_text ys"
  by (simp add: hex_text_def)

lemma length_hex_text: "length (hex_text qs) = 2 * length qs"
  by (induction qs) (simp_all add: hex_text_def)

lemma hex_line_header:
  "hex_line (L # AH # AL # T # qs) tail =
     CHR '':'' # fst L # snd L # fst AH # snd AH # fst AL # snd AL # fst T # snd T #
       (hex_text qs @ tail)"
  by (simp add: hex_line_def hex_text_def)

lemma gate_no_wrap:
  assumes "0 \<le> a" "a < 65536" "0 \<le> l" "l < 256" "unat (e :: u32) \<le> 0xFFFEFF00"
  shows "((0x1000000 :: u32) \<le> word_of_int a + e + word_of_int l)
         \<longleftrightarrow> MAX_MEMORY_SIZE \<le> unat e + nat a + nat l"
proof -
  have c: "word_of_int a + e + word_of_int l = (e + word_of_int a) + word_of_int l"
    by (simp add: add.commute)
  have 1: "unat (e + word_of_int a) = unat e + nat a"
    using assms by (intro unat_base_plus) simp_all
  have 2: "unat ((e + word_of_int a) + word_of_int l) = unat e + nat a + nat l"
    using assms 1 unat_base_plus [of l "e + word_of_int a"] by simp
  show ?thesis
    unfolding c word_le_nat_alt 2 by (simp add: MAX_MEMORY_SIZE_def)
qed

lemma addr_split:
  assumes "0 \<le> ah" "ah < 256" "0 \<le> al" "al < (256 :: int)"
  shows "drop_bit 8 (256 * ah + al) AND 255 = ah" "(256 * ah + al) AND 255 = al"
  using assms by (simp_all add: and_255 drop_bit_eq_div)

lemma parse_scanned:
  assumes "take 1 line = '':''" "11 \<le> length line"
    "sscanf_x 2 (drop 1 line) = ScanOK len" "11 + len * 2 \<le> int (length line)"
    "sscanf_x 4 (drop 3 line) = ScanOK addr" "sscanf_x 2 (drop 7 line) = ScanOK code"
  shows "ihex_parse_line p line s =
      (if (0x1000000 :: u32) \<le> word_of_int addr + extended_addr s + word_of_int len
       then Inr (0, s) else parse_record p (drop 9 line) len addr code s)"
  unfolding ihex_parse_line_def using assms by simp

lemma header_sum_bytes:
  assumes "0 \<le> l" "l < 256" "0 \<le> ah" "ah < 256" "0 \<le> al" "al < 256" "0 \<le> t" "t < 256"
  shows "header_sum l (256 * ah + al) t = l + ah + al + t"
  unfolding header_sum_def using assms addr_split [of ah al] by (simp add: and_255)

lemma parse_header:
  assumes x: "xpair L" "xpair AH" "xpair AL" "xpair T"
    and len: "2 + 2 * byte_of L \<le> int (length rest)"
    and e: "unat (extended_addr s) \<le> 0xFFFEFF00"
  shows "ihex_parse_line p (hex_line [L, AH, AL, T] rest) s =
      (if MAX_MEMORY_SIZE \<le> unat (extended_addr s) + nat (256 * byte_of AH + byte_of AL) + nat (byte_of L)
       then Inr (0, s)
       else parse_record p rest (byte_of L) (256 * byte_of AH + byte_of AL) (byte_of T) s)"
proof -
  note r = byte_of_range [OF x(1)] byte_of_range [OF x(2)] byte_of_range [OF x(3)]
    byte_of_range [OF x(4)]
  have a: "0 \<le> 256 * byte_of AH + byte_of AL" "256 * byte_of AH + byte_of AL < 65536"
    using r by simp_all
  have g: "((0x1000000 :: u32) \<le> word_of_int (256 * byte_of AH + byte_of AL) + extended_addr s
              + word_of_int (byte_of L))
         \<longleftrightarrow> MAX_MEMORY_SIZE \<le> unat (extended_addr s) + nat (256 * byte_of AH + byte_of AL)
              + nat (byte_of L)"
    using gate_no_wrap [OF a _ _ e, of "byte_of L"] r by simp
  have "ihex_parse_line p (hex_line [L, AH, AL, T] rest) s =
      (if (0x1000000 :: u32) \<le> word_of_int (256 * byte_of AH + byte_of AL) + extended_addr s
              + word_of_int (byte_of L)
       then Inr (0, s)
       else parse_record p (drop 9 (hex_line [L, AH, AL, T] rest)) (byte_of L)
              (256 * byte_of AH + byte_of AL) (byte_of T) s)"
    using len r
    by (intro parse_scanned)
       (simp_all add: hex_line_header hex_text_def sscanf_x_2_pair [OF x(1)]
          sscanf_x_4_pairs [OF x(2) x(3)] sscanf_x_2_pair [OF x(4)])
  also have "drop 9 (hex_line [L, AH, AL, T] rest) = rest"
    by (simp add: hex_line_header hex_text_def)
  finally show ?thesis unfolding g .
qed

subsection \<open>Data records\<close>

lemma data_record_shape:
  assumes "5 \<le> length bs"
  shows "bs = bs ! 0 # bs ! 1 # bs ! 2 # bs ! 3 # butlast (drop 4 bs) @ [last bs]"
proof -
  obtain L AH AL T r where bs: "bs = L # AH # AL # T # r"
    using assms by (cases bs; simp; rename_tac r1; case_tac r1; simp; rename_tac r2; case_tac r2; simp;
        rename_tac r3; case_tac r3; simp)
  then have "r \<noteq> []" using assms by auto
  then show ?thesis unfolding bs by simp
qed

lemma checksum_test:
  "(((sm AND 255) + (ck AND 255)) AND 255 \<noteq> 0) \<longleftrightarrow> (sm + ck) mod 256 \<noteq> (0 :: int)"
  by (simp add: and_255 mod_add_eq)

lemma parse_data_line:
  assumes x: "xpair L" "xpair AH" "xpair AL" "xpair T" "list_all xpair ds" "xpair CK"
    and l: "byte_of L = int (length ds)" and t: "byte_of T = 0"
    and e: "unat (extended_addr s) \<le> 0xFFFEFF00"
  shows "ihex_parse_line p (hex_line (L # AH # AL # T # ds @ [CK]) tail) s =
      (if MAX_MEMORY_SIZE \<le> unat (extended_addr s) + nat (256 * byte_of AH + byte_of AL) + length ds
       then Inr (0, s)
       else Inr (if (byte_of L + byte_of AH + byte_of AL + byte_of T
                      + sum_list (map byte_of ds) + byte_of CK) mod 256 = 0 then 1 else 0,
                 store_bytes (unat (extended_addr s) + nat (256 * byte_of AH + byte_of AL))
                   (map byte_of ds) (s\<lparr>byte_count := byte_count s + int (length ds)\<rparr>)))"
proof -
  note r = byte_of_range [OF x(1)] byte_of_range [OF x(2)] byte_of_range [OF x(3)]
    byte_of_range [OF x(4)] byte_of_range [OF x(6)]
  define rest where "rest = hex_text ds @ fst CK # snd CK # tail"
  define addr where "addr = 256 * byte_of AH + byte_of AL"
  define base where "base = word_of_int addr + extended_addr s"
  define s1 where "s1 = s\<lparr>byte_count := byte_count s + int (length ds)\<rparr>"
  define hsum where "hsum = byte_of L + byte_of AH + byte_of AL + byte_of T"
  have line: "hex_line (L # AH # AL # T # ds @ [CK]) tail = hex_line [L, AH, AL, T] rest"
    by (simp add: hex_line_def hex_text_def rest_def)
  have len: "2 + 2 * byte_of L \<le> int (length rest)"
    by (simp add: l length_hex_text rest_def)
  have hd: "ihex_parse_line p (hex_line [L, AH, AL, T] rest) s =
      (if MAX_MEMORY_SIZE \<le> unat (extended_addr s) + nat addr + nat (byte_of L)
       then Inr (0, s)
       else parse_record p rest (byte_of L) addr (byte_of T) s)"
    unfolding addr_def by (rule parse_header [OF x(1-4) len e])
  show ?thesis
  proof (cases "MAX_MEMORY_SIZE \<le> unat (extended_addr s) + nat addr + length ds")
    case True
    then show ?thesis unfolding line hd by (simp add: l addr_def)
  next
    case False
    have a0: "0 \<le> addr" and n: "nat addr < 65536" using r unfolding addr_def by (simp, arith)
    have "unat (extended_addr s) + nat addr < 2 ^ 32" using n e by simp
    then have "unat (extended_addr s + word_of_int addr) = unat (extended_addr s) + nat addr"
      by (rule unat_base_plus [OF a0])
    then have base: "unat base = unat (extended_addr s) + nat addr"
      unfolding base_def by (simp only: add.commute)
    have fits: "unat base + nat (int (length ds)) < MAX_MEMORY_SIZE"
      using False by (simp add: base)
    have hs: "header_sum (byte_of L) addr (byte_of T) = hsum"
      unfolding addr_def hsum_def using r by (intro header_sum_bytes) simp_all
    have "parse_record p rest (byte_of L) addr (byte_of T) s =
        data_loop (int (length ds)) base (Some rest) 0 hsum s1"
      unfolding parse_record_def hs by (simp add: t l base_def s1_def)
    also have "\<dots> = data_loop (int (length ds)) base (Some (fst CK # snd CK # tail))
          (0 + int (length ds)) (hsum + sum_list (map byte_of ds))
          (store_bytes (unat base + nat 0) (map byte_of ds) s1)"
      unfolding rest_def using r fits l by (intro data_loop_pairs [OF x(5)]) simp_all
    also have "\<dots> = Inr (if (hsum + sum_list (map byte_of ds) + byte_of CK) mod 256 = 0
                           then 1 else 0,
          store_bytes (unat base) (map byte_of ds) s1)"
      by (subst data_loop.simps) (simp add: sscanf_x_2_pair [OF x(6)] checksum_test)
    finally show ?thesis
      unfolding line hd using False
      by (simp add: l base) (simp add: addr_def hsum_def s1_def l)
  qed
qed

lemma parse_data_record:
  assumes x: "list_all xpair bs" and n: "5 \<le> length bs"
    and l: "byte_of (bs ! 0) = int (length bs) - 5" and t: "byte_of (bs ! 3) = 0"
    and e: "unat (extended_addr s) \<le> 0xFFFEFF00"
  shows "ihex_parse_line p (hex_line bs tail) s =
      (if MAX_MEMORY_SIZE \<le> unat (extended_addr s) + nat (record_addr bs) + (length bs - 5)
       then Inr (0, s)
       else Inr (if checksum_ok bs then 1 else 0,
                 store_bytes (unat (extended_addr s) + nat (record_addr bs)) (record_data bs)
                   (s\<lparr>byte_count := byte_count s + (int (length bs) - 5)\<rparr>)))"
proof -
  define ds where "ds = butlast (drop 4 bs)"
  have shape: "bs = bs ! 0 # bs ! 1 # bs ! 2 # bs ! 3 # ds @ [last bs]"
    unfolding ds_def by (rule data_record_shape [OF n])
  have len: "length bs = 5 + length ds" using n by (simp add: ds_def)
  have "list_all xpair (bs ! 0 # bs ! 1 # bs ! 2 # bs ! 3 # ds @ [last bs])"
    by (subst shape [symmetric]) (rule x)
  then have xs: "xpair (bs ! 0)" "xpair (bs ! 1)" "xpair (bs ! 2)" "xpair (bs ! 3)"
    "list_all xpair ds" "xpair (last bs)"
    by simp_all
  have l': "byte_of (bs ! 0) = int (length ds)" using l len by simp
  have sm: "sum_list (map byte_of bs) =
      byte_of (bs ! 0) + byte_of (bs ! 1) + byte_of (bs ! 2) + byte_of (bs ! 3)
        + sum_list (map byte_of ds) + byte_of (last bs)"
    by (subst shape) simp
  have "ihex_parse_line p (hex_line (bs ! 0 # bs ! 1 # bs ! 2 # bs ! 3 # ds @ [last bs]) tail) s =
      (if MAX_MEMORY_SIZE \<le> unat (extended_addr s) + nat (256 * byte_of (bs ! 1) + byte_of (bs ! 2))
            + length ds
       then Inr (0, s)
       else Inr (if (byte_of (bs ! 0) + byte_of (bs ! 1) + byte_of (bs ! 2) + byte_of (bs ! 3)
                      + sum_list (map byte_of ds) + byte_of (last bs)) mod 256 = 0 then 1 else 0,
                 store_bytes (unat (extended_addr s) + nat (256 * byte_of (bs ! 1) + byte_of (bs ! 2)))
                   (map byte_of ds) (s\<lparr>byte_count := byte_count s + int (length ds)\<rparr>)))"
    by (rule parse_data_line [OF xs l' t e])
  then show ?thesis
    unfolding shape [symmetric] checksum_ok_def sm record_addr_def record_data_def
      ds_def [symmetric]
    by (simp add: len)
qed

lemma sum_list_update_int:
  "k < length xs \<Longrightarrow> sum_list (xs[k := v]) = sum_list xs - xs ! k + (v :: int)"
  by (induction xs arbitrary: k) (auto split: nat.splits)

lemma mod_256_broken:
  assumes "(t :: int) mod 256 = 0" "0 \<le> a" "a < 256" "0 \<le> b" "b < 256" "b \<noteq> a"
  shows "(t - a + b) mod 256 \<noteq> 0"
proof
  assume "(t - a + b) mod 256 = 0"
  then have "256 dvd (t - a + b)" by (simp add: dvd_eq_mod_eq_0)
  moreover have "256 dvd t" using assms(1) by (simp add: dvd_eq_mod_eq_0)
  ultimately have "256 dvd (t - a + b - t)" by (rule dvd_diff)
  then have d: "256 dvd (b - a)" by simp
  have "b - a \<noteq> 0" using assms(6) by simp
  from dvd_imp_le_int [OF this d] show False using assms(2-5) by simp
qed

lemma checksum_broken:
  assumes "checksum_ok bs" "k < length bs" "list_all xpair bs" "xpair q"
    "byte_of q \<noteq> byte_of (bs ! k)"
  shows "\<not> checksum_ok (bs[k := q])"
proof -
  have "xpair (bs ! k)" using assms(2,3) by (simp add: list_all_length)
  note r = byte_of_range [OF this] byte_of_range [OF assms(4)]
  have "sum_list (map byte_of (bs[k := q])) =
      sum_list (map byte_of bs) - byte_of (bs ! k) + byte_of q"
    using assms(2) by (simp add: map_update sum_list_update_int)
  moreover have "sum_list (map byte_of bs) mod 256 = 0"
    using assms(1) by (simp add: checksum_ok_def)
  ultimately show ?thesis
    unfolding checksum_ok_def using r assms(5) by (simp add: mod_256_broken)
qed

lemma store_bytes_fields:
  "end_record_seen (store_bytes a ds s) = end_record_seen s"
  "byte_count (store_bytes a ds s) = byte_count s"
  "extended_addr (store_bytes a ds s) = extended_addr s"
  by (induction ds arbitrary: a s) simp_all

lemma store_bytes_image:
  "firmware_image (store_bytes a ds s) x =
     (if a \<le> x \<and> x < a + length ds then word_of_int (ds ! (x - a)) else firmware_image s x)"
proof (induction ds arbitrary: a s)
  case Nil
  show ?case by auto
next
  case (Cons d ds)
  show ?case by (auto simp: Cons.IH nth_Cons')
qed

lemma store_bytes_mask:
  "firmware_mask (store_bytes a ds s) x =
     (if a \<le> x \<and> x < a + length ds then 1 else firmware_mask s x)"
proof (induction ds arbitrary: a s)
  case Nil
  show ?case by auto
next
  case (Cons d ds)
  show ?case by (auto simp: Cons.IH)
qed


subsection \<open>Reading the image\<close>

lemma length_get_data_loop:
  "length (get_data_loop s addr len i) = nat (len - i)"
proof (induction s addr len i rule: get_data_loop.induct)
  case (1 s addr len i)
  show ?case
  proof (cases "i < len")
    case True
    then show ?thesis
      using "1.IH" by (subst get_data_loop.simps) (simp add: Suc_nat_eq_nat_zadd1 algebra_simps)
  next
    case False
    then show ?thesis by (subst get_data_loop.simps) simp
  qed
qed

lemma length_ihex_get_data: "length (ihex_get_data s addr len) = nat len"
  by (simp add: ihex_get_data_def length_get_data_loop)


subsection \<open>Evaluating the parser on a given line\<close>

lemmas scan_eval = sscanf_x_def scan_digits_def isspace_def isxdigit_def hex_value_def
  xdigit_val_def

lemmas line_eval = ihex_parse_line_def parse_record_def header_sum_def ext_value_def
  data_loop.simps MAX_MEMORY_SIZE_def word_le_nat_alt word_less_nat_alt

lemma get_data_loop_nth:
  assumes "0 \<le> addr" "0 \<le> i" "k < nat (len - i)"
  shows "get_data_loop s addr len i ! k =
           (if firmware_mask s (nat addr + k) \<noteq> 0 then firmware_image s (nat addr + k) else 255)"
  using assms
proof (induction s addr len i arbitrary: k rule: get_data_loop.induct)
  case (1 s addr len i)
  have lt: "i < len" using "1.prems" by simp
  show ?case
  proof (cases k)
    case 0
    then show ?thesis using lt by (subst get_data_loop.simps) simp
  next
    case (Suc k')
    have "get_data_loop s (addr + 1) len (i + 1) ! k' =
        (if firmware_mask s (nat (addr + 1) + k') \<noteq> 0
         then firmware_image s (nat (addr + 1) + k') else 255)"
      using "1.prems" Suc lt by (intro "1.IH") simp_all
    moreover have "nat (addr + 1) + k' = nat addr + k"
      using "1.prems"(1) Suc by simp
    ultimately show ?thesis
      using lt Suc by (subst get_data_loop.simps) simp
  qed
qed

lemma replicate_numeral:
  "replicate (numeral n) x = x # replicate (pred_numeral n) x"
  by (simp add: numeral_eq_Suc)

lemmas get_data_eval = ihex_get_data_def get_data_loop.simps MAX_MEMORY_SIZE_def
  replicate_numeral

subsection \<open>What \<^verbatim>\<open>sscanf\<close> can store, and extended-address records\<close>










lemma ext_checksum_test:
  assumes "0 \<le> v1" "v1 < 256" "0 \<le> v2" "v2 < (256 :: int)"
  shows "((((h + ((drop_bit 8 (256 * v1 + v2) AND 255) + ((256 * v1 + v2) AND 255))) AND 255)
            + (ck AND 255)) AND 255 \<noteq> 0)
         \<longleftrightarrow> (h + v1 + v2 + ck) mod 256 \<noteq> 0"
proof -
  have "(((h + (v1 + v2)) AND 255) + (ck AND 255)) AND 255 \<noteq> 0
          \<longleftrightarrow> (h + (v1 + v2) + ck) mod 256 \<noteq> 0"
    by (rule checksum_test)
  then show ?thesis
    unfolding addr_split [OF assms] by (simp add: add.assoc)
qed

lemma parse_ext_fields:
  assumes x: "xpair L" "xpair AH" "xpair AL" "xpair T"
    and l: "byte_of L = 2" and t: "byte_of T = 2 \<or> byte_of T = 4"
    and len: "6 \<le> length rest"
    and fits: "unat (extended_addr s) + nat (256 * byte_of AH + byte_of AL) + 2 < MAX_MEMORY_SIZE"
  shows "ihex_parse_line p (hex_line [L, AH, AL, T] rest) s =
      (case ext_value rest (2 + byte_of AH + byte_of AL + byte_of T) of
         Inl u \<Rightarrow> Inl u
       | Inr None \<Rightarrow> Inr (1, s)
       | Inr (Some i) \<Rightarrow>
           Inr (1, s\<lparr>extended_addr :=
                       (if byte_of T = 2 then push_bit 4 (word_of_int i) else linear_base p i)\<rparr>))"
proof -
  note r = byte_of_range [OF x(1)] byte_of_range [OF x(2)] byte_of_range [OF x(3)]
    byte_of_range [OF x(4)]
  define addr where "addr = 256 * byte_of AH + byte_of AL"
  define hsum where "hsum = 2 + byte_of AH + byte_of AL + byte_of T"
  have e: "unat (extended_addr s) \<le> 0xFFFEFF00"
    using fits by (simp add: MAX_MEMORY_SIZE_def)
  have len': "2 + 2 * byte_of L \<le> int (length rest)" using len l by simp
  have hd: "ihex_parse_line p (hex_line [L, AH, AL, T] rest) s =
      (if MAX_MEMORY_SIZE \<le> unat (extended_addr s) + nat addr + nat (byte_of L)
       then Inr (0, s)
       else parse_record p rest (byte_of L) addr (byte_of T) s)"
    unfolding addr_def by (rule parse_header [OF x(1-4) len' e])
  have hs: "header_sum (byte_of L) addr (byte_of T) = hsum"
    unfolding addr_def hsum_def l [symmetric] using r by (intro header_sum_bytes) simp_all
  have "parse_record p rest (byte_of L) addr (byte_of T) s =
      (case ext_value rest hsum of
         Inl u \<Rightarrow> Inl u
       | Inr None \<Rightarrow> Inr (1, s)
       | Inr (Some i) \<Rightarrow>
           Inr (1, s\<lparr>extended_addr :=
                       (if byte_of T = 2 then push_bit 4 (word_of_int i) else linear_base p i)\<rparr>))"
    unfolding parse_record_def hs using t l
    by (auto split: sum.splits option.splits simp del: push_bit_of_int)
  then show ?thesis
    unfolding hd using fits by (simp add: l addr_def hsum_def)
qed

lemma parse_ext_line:
  assumes x: "xpair L" "xpair AH" "xpair AL" "xpair T" "xpair V1" "xpair V2" "xpair CK"
    and l: "byte_of L = 2" and t: "byte_of T = 2 \<or> byte_of T = 4"
    and fits: "unat (extended_addr s) + nat (256 * byte_of AH + byte_of AL) + 2 < MAX_MEMORY_SIZE"
  shows "ihex_parse_line p (hex_line [L, AH, AL, T, V1, V2, CK] tail) s =
      (if checksum_ok [L, AH, AL, T, V1, V2, CK] then
         Inr (1, s\<lparr>extended_addr :=
                     (if byte_of T = 2 then push_bit 4 (word_of_int (256 * byte_of V1 + byte_of V2))
                      else linear_base p (256 * byte_of V1 + byte_of V2))\<rparr>)
       else Inr (1, s))"
proof -
  note r = byte_of_range [OF x(5)] byte_of_range [OF x(6)]
  define rest where "rest = hex_text [V1, V2, CK] @ tail"
  define hsum where "hsum = 2 + byte_of AH + byte_of AL + byte_of T"
  define v where "v = 256 * byte_of V1 + byte_of V2"
  have line: "hex_line [L, AH, AL, T, V1, V2, CK] tail = hex_line [L, AH, AL, T] rest"
    by (simp add: hex_line_def hex_text_def rest_def)
  have len: "6 \<le> length rest" by (simp add: rest_def length_hex_text)
  have sv: "sscanf_x 4 rest = ScanOK v"
    unfolding rest_def v_def hex_text_def using sscanf_x_4_pairs [OF x(5,6)] by simp
  have sc: "sscanf_x 2 (drop 4 rest) = ScanOK (byte_of CK)"
    unfolding rest_def hex_text_def using sscanf_x_2_pair [OF x(7)] by simp
  have ck: "checksum_ok [L, AH, AL, T, V1, V2, CK] \<longleftrightarrow>
      (hsum + byte_of V1 + byte_of V2 + byte_of CK) mod 256 = 0"
    by (simp add: checksum_ok_def hsum_def l add.assoc)
  have ev: "ext_value rest hsum =
      (if checksum_ok [L, AH, AL, T, V1, V2, CK] then Inr (Some v) else Inr None)"
    unfolding ext_value_def sv sc ck v_def
    using ext_checksum_test [of "byte_of V1" "byte_of V2" hsum "byte_of CK"] r
    by simp
  show ?thesis
    unfolding line parse_ext_fields [OF x(1-4) l t len fits] hsum_def [symmetric] ev
      v_def [symmetric]
    by simp
qed

lemma linear_base_value:
  assumes "0 \<le> v" "v < 65536" "0 < code_size p" "code_size p < 2 ^ 31"
  shows "linear_base p v =
      (if code_size p > 1048576 \<and> block_size p \<ge> 1024 \<and> 0x60000000 \<le> v * 65536 \<and>
          v * 65536 < 0x60000000 + code_size p
       then word_of_int (v * 65536 - 0x60000000) else word_of_int (v * 65536))"
proof -
  define e :: u32 where "e = push_bit 16 (word_of_int v)"
  have e: "e = word_of_int (v * 65536)"
    unfolding e_def by (simp add: push_bit_eq_mult)
  have small: "uint (word_of_int w :: u32) = w" if "0 \<le> w" "w < 2 ^ 32" for w
    using that by (simp add: uint_word_of_int take_bit_int_eq_self)
  have "0 \<le> v * 65536" "v * 65536 < 2 ^ 32" using assms(1,2) by simp_all
  then have ue: "uint e = v * 65536"
    unfolding e by (rule small)
  have "0 \<le> 0x60000000 + code_size p" "0x60000000 + code_size p < 2 ^ 32"
    using assms(3,4) by simp_all
  then have uw: "uint (word_of_int (0x60000000 + code_size p) :: u32) = 0x60000000 + code_size p"
    by (rule small)
  have c1: "(0x60000000 :: u32) \<le> e \<longleftrightarrow> 0x60000000 \<le> v * 65536"
    by (simp add: word_le_def ue)
  have c2: "e < word_of_int (0x60000000 + code_size p) \<longleftrightarrow> v * 65536 < 0x60000000 + code_size p"
    by (simp only: word_less_def ue uw)
  have sub: "e - 0x60000000 = word_of_int (v * 65536 - 0x60000000)"
    unfolding e by simp
  show ?thesis
    unfolding linear_base_def Let_def e_def [symmetric] c1 c2 sub
    by (simp add: e)
qed

subsection \<open>Any line: what a call can change\<close>

lemma sscanf_x_examples:
  "sscanf_x 2 ''0xBD'' = ScanOK 0" "sscanf_x 4 ''0xZZFA'' = ScanOK 0"
  "sscanf_x 4 ''0x1FA'' = ScanOK 31" "sscanf_x 2 ''4Z'' = ScanOK 4"
  "sscanf_x 4 ''12Z0'' = ScanOK 18" "sscanf_x 2 ''-1'' = ScanOK (- 1)"
  "sscanf_x 2 '' '' = ScanEOF" "sscanf_x 2 ''ZZ'' = ScanFail" "sscanf_x 2 ''-Z'' = ScanFail"
  by (simp_all add: scan_eval)










subsection \<open>Extended-address records and the gate\<close>







subsection \<open>\<^verbatim>\<open>ihex_read\<close>: where the loop stops\<close>




subsection \<open>The discovery loop\<close>

lemmas stage_defs = discovery_pass_def hard_reboot_stage_def soft_reboot_stage_def wait_stage_def

lemma hard_reboot_failure_pass:
  assumes "teensy_open (usb (passes d)) = 0" "teensy_hard_reboot_device d"
    "teensy_hard_reboot (usb (passes d)) = 0"
  shows "discovery_pass usb d =
     d\<lparr>calls := calls d @ [Open 0, HardReboot 0], passes := Suc (passes d),
       exited := Some ''unable to find rebootor''\<rparr>"
  using assms by (simp add: stage_defs)

lemma hard_reboot_failure_run:
  assumes "\<not> found d" "exited d = None"
    "teensy_open (usb (passes d)) = 0" "teensy_hard_reboot_device d"
    "teensy_hard_reboot (usb (passes d)) = 0"
  shows "discover usb d =
     Some (d\<lparr>calls := calls d @ [Open 0, HardReboot 0], passes := Suc (passes d),
             exited := Some ''unable to find rebootor''\<rparr>)"
proof -
  let ?b = "\<lambda>d. \<not> found d \<and> exited d = None"
  let ?x = "d\<lparr>calls := calls d @ [Open 0, HardReboot 0], passes := Suc (passes d),
       exited := Some ''unable to find rebootor''\<rparr>"
  have "while_option ?b (discovery_pass usb) d = while_option ?b (discovery_pass usb) ?x"
    by (subst while_option_unfold) (simp add: assms(1,2) hard_reboot_failure_pass [where usb = usb and d = d, OF assms(3-5)])
  also have "\<dots> = Some ?x"
    by (subst while_option_unfold) simp
  finally show ?thesis by (simp add: discover_def)
qed

lemma hard_reboot_success_pass:
  assumes "teensy_open (usb (passes d)) = 0" "teensy_hard_reboot_device d"
    "teensy_hard_reboot (usb (passes d)) \<noteq> 0" "exited d = None" "\<not> found d"
  shows "\<not> teensy_hard_reboot_device (discovery_pass usb d) \<and>
     wait_for_device_to_appear (discovery_pass usb d) \<and>
     exited (discovery_pass usb d) = None \<and> \<not> found (discovery_pass usb d) \<and>
     hard_reboots (discovery_pass usb d) = hard_reboots d @ [HardReboot 1]"
proof -
  have 1: "teensy_hard_reboot (usb (passes d)) = 1"
    using assms(3) by (simp add: teensy_hard_reboot_def split: if_splits)
  show ?thesis
    using assms(1,2,4,5) by (simp add: stage_defs 1 hard_reboots_def)
qed

lemma soft_reboot_failure_pass:
  assumes "exited d = None" "teensy_open (usb (passes d)) = 0" "\<not> teensy_hard_reboot_device d"
    "teensy_soft_reboot_device d" "teensy_soft_reboot (usb (passes d)) = 0"
  shows "discovery_pass usb d =
     d\<lparr>calls := calls d @ [Open 0, SoftReboot 0, Sleep 250000], passes := Suc (passes d),
       teensy_soft_reboot_device := False, wait_for_device_to_appear := True, waited := True\<rparr>"
  using assms by (simp add: stage_defs)

lemma hard_reboot_once_pass:
  assumes "length (hard_reboots d) \<le> 1 \<and>
      (teensy_hard_reboot_device d \<and> exited d = None \<longrightarrow> hard_reboots d = [])"
    "\<not> found d \<and> exited d = None"
  shows "length (hard_reboots (discovery_pass usb d)) \<le> 1 \<and>
      (teensy_hard_reboot_device (discovery_pass usb d) \<and> exited (discovery_pass usb d) = None
         \<longrightarrow> hard_reboots (discovery_pass usb d) = [])"
  using assms by (auto simp: stage_defs hard_reboots_def)

lemma hard_reboot_once_run:
  assumes "discover usb (start_discovery w r sft) = Some d"
  shows "length (hard_reboots d) \<le> 1"
proof -
  let ?J = "\<lambda>d. length (hard_reboots d) \<le> 1 \<and>
      (teensy_hard_reboot_device d \<and> exited d = None \<longrightarrow> hard_reboots d = [])"
  have "?J d"
  proof (rule while_option_rule [where P = ?J, OF _ assms [unfolded discover_def]])
    show "?J (start_discovery w r sft)"
      by (simp add: start_discovery_def hard_reboots_def)
  next
    fix d assume "?J d" "\<not> found d \<and> exited d = None"
    then show "?J (discovery_pass usb d)" by (rule hard_reboot_once_pass)
  qed
  then show ?thesis by simp
qed

lemmas usb_eval = teensy_open_def teensy_hard_reboot_def teensy_soft_reboot_def
  start_discovery_def

subsection \<open>The programming loop\<close>

lemma block_has_data_iff:
  "block_has_data s addr bsize \<longleftrightarrow>
     (\<exists>a. addr \<le> a \<and> a < addr + bsize \<and> firmware_mask s (nat a) \<noteq> 0 \<and>
          firmware_image s (nat a) \<noteq> 255)"
  by (auto simp: block_has_data_def list_ex_iff)

lemma memory_is_blank_loop_data:
  assumes "memory_is_blank_loop s addr bsize = 0" "0 \<le> bsize"
  shows "\<exists>a. addr \<le> a \<and> a < addr + bsize \<and> firmware_mask s (nat a) \<noteq> 0 \<and>
          firmware_image s (nat a) \<noteq> 255"
  using assms
proof (induction s addr bsize rule: memory_is_blank_loop.induct)
  case (1 s addr bsize)
  note unf = memory_is_blank_loop.simps [of s addr bsize]
  show ?case
  proof (cases "bsize \<noteq> 0 \<and> addr < int MAX_MEMORY_SIZE")
    case False
    then show ?thesis using "1.prems"(1) by (subst (asm) unf) auto
  next
    case run: True
    show ?thesis
    proof (cases "firmware_mask s (nat addr) \<noteq> 0 \<and> firmware_image s (nat addr) \<noteq> 255")
      case True
      then show ?thesis using run "1.prems"(2) by (intro exI [of _ addr]) simp
    next
      case False
      have "memory_is_blank_loop s (addr + 1) (bsize - 1) = 0"
        using "1.prems"(1) run False by (subst (asm) unf) auto
      moreover have "0 \<le> bsize - 1" using run "1.prems"(2) by simp
      ultimately obtain a where "addr + 1 \<le> a" "a < addr + 1 + (bsize - 1)"
          "firmware_mask s (nat a) \<noteq> 0" "firmware_image s (nat a) \<noteq> 255"
        using "1.IH" [OF run False] by blast
      then show ?thesis by (intro exI [of _ a]) simp
    qed
  qed
qed

lemma memory_is_blank_data:
  assumes "ihex_memory_is_blank s addr bsize = 0" "0 \<le> bsize"
  shows "block_has_data s addr bsize"
proof -
  have "memory_is_blank_loop s addr bsize = 0"
    using assms(1) by (simp add: ihex_memory_is_blank_def split: if_splits)
  from memory_is_blank_loop_data [OF this assms(2)] show ?thesis
    by (simp add: block_has_data_iff)
qed

lemma encode_block_supported:
  assumes "small_target p \<or> medium_target p \<or> large_target p"
  shows "\<exists>buf n. encode_block p s a = Some (buf, n)"
  using assms by (auto simp: encode_block_def small_target_def medium_target_def large_target_def)

lemma program_block_invariant:
  assumes i: "write_invariant p s g" and b: "failed g = None \<and> cur_addr g < code_size p"
    and bs: "0 < block_size p" and sup: "small_target p \<or> medium_target p \<or> large_target p"
  shows "write_invariant p s (program_block p s device g)"
proof (cases "first_block g = 0")
  case fb: True
  then have w: "writes g \<noteq> []" using i by (simp add: write_invariant_def)
  show ?thesis
  proof (cases "ihex_bytes_in_range s (cur_addr g) (cur_addr g + block_size p - 1) = 0 \<or>
      ihex_memory_is_blank s (cur_addr g) (block_size p) \<noteq> 0")
    case True
    then have "program_block p s device g = g\<lparr>cur_addr := cur_addr g + block_size p\<rparr>"
      using fb by (auto simp: program_block_def)
    then show ?thesis using i bs fb by (simp add: write_invariant_def)
  next
    case False
    then have d: "block_has_data s (cur_addr g) (block_size p)"
      using memory_is_blank_data [of s "cur_addr g" "block_size p"] bs by simp
    obtain buf n where e: "encode_block p s (cur_addr g) = Some (buf, n)"
      using encode_block_supported [OF sup] by blast
    show ?thesis
      using i bs w d fb False
      by (cases "device (length (writes g))")
         (simp_all add: program_block_def e write_invariant_def)
  qed
next
  case fb: False
  then have w: "writes g = []" "cur_addr g = 0" using i b by (simp_all add: write_invariant_def)
  obtain buf n where e: "encode_block p s 0 = Some (buf, n)"
    using encode_block_supported [OF sup] by blast
  show ?thesis
    using fb w bs
    by (cases "device 0") (simp_all add: program_block_def e write_invariant_def)
qed

lemma program_loop_total:
  assumes bs: "0 < block_size p" and sup: "small_target p \<or> medium_target p \<or> large_target p"
    and i: "write_invariant p s g0"
  shows "\<exists>g. program_loop p s device g0 = Some g"
  unfolding program_loop_def
proof (rule measure_while_option_Some [where P = "write_invariant p s"
      and f = "\<lambda>g. if failed g \<noteq> None then 0 else nat (code_size p - cur_addr g) + 1"])
  show "write_invariant p s g0" by (rule i)
next
  fix g assume i: "write_invariant p s g" and b: "failed g = None \<and> cur_addr g < code_size p"
  have 1: "write_invariant p s (program_block p s device g)"
    by (rule program_block_invariant [OF i b bs sup])
  obtain buf n where e: "encode_block p s (cur_addr g) = Some (buf, n)"
    using encode_block_supported [OF sup] by blast
  have 2: "(if failed (program_block p s device g) \<noteq> None then 0
            else nat (code_size p - cur_addr (program_block p s device g)) + 1)
         < (if failed g \<noteq> None then 0 else nat (code_size p - cur_addr g) + 1)"
    using b bs by (auto simp: program_block_def e)
  from 1 2 show "write_invariant p s (program_block p s device g) \<and>
      (if failed (program_block p s device g) \<noteq> None then 0
            else nat (code_size p - cur_addr (program_block p s device g)) + 1)
         < (if failed g \<noteq> None then 0 else nat (code_size p - cur_addr g) + 1)"
    by simp
qed

lemma program_loop_invariant:
  assumes bs: "0 < block_size p" and sup: "small_target p \<or> medium_target p \<or> large_target p"
    and i: "write_invariant p s g0" and r: "program_loop p s device g0 = Some g"
  shows "write_invariant p s g \<and> \<not> (failed g = None \<and> cur_addr g < code_size p)"
proof
  show "write_invariant p s g"
  proof (rule while_option_rule [where P = "write_invariant p s",
        OF _ r [unfolded program_loop_def] i])
    fix g assume "write_invariant p s g" "failed g = None \<and> cur_addr g < code_size p"
    then show "write_invariant p s (program_block p s device g)"
      using bs sup by (rule program_block_invariant)
  qed
  show "\<not> (failed g = None \<and> cur_addr g < code_size p)"
    using while_option_stop [OF r [unfolded program_loop_def]] .
qed

lemma mcus_programmable: "list_all (\<lambda>m. programmable (mcu_profile m)) MCUs"
  by (simp add: MCUs_def mcu_profile_def programmable_def small_target_def medium_target_def
      large_target_def)

lemmas program_eval = program_loop_def while_option_unfold program_block_def
  ihex_bytes_in_range_def bytes_in_range_loop.simps ihex_memory_is_blank_def
  memory_is_blank_loop.simps encode_block_def ihex_get_data_def get_data_loop.simps
  start_programming_def MAX_MEMORY_SIZE_def reset_state_def

section \<open>The claims\<close>

text \<open>
  C8. The programming loop encodes a block in exactly one of three formats, chosen by the
  profile: for \<^verbatim>\<open>block_size <= 256\<close> and \<^verbatim>\<open>code_size < 0x10000\<close>, bytes 0 and 1 of the
  address (little-endian) before the payload; for \<^verbatim>\<open>block_size == 256\<close> and
  \<^verbatim>\<open>code_size >= 0x10000\<close>, bytes 1 and 2 of the address (bits 8 to 23, low byte
  first); for \<^verbatim>\<open>block_size\<close> 512 or 1024, bytes 0, 1 and 2 of the address and 61 zero
  bytes. The three conditions exclude each other, every other profile ends the run
  (\<open>None\<close>), the write size is \<^verbatim>\<open>block_size + 2\<close> for the first two formats and
  \<^verbatim>\<open>block_size + 64\<close> for the third, and it is the number of bytes of the block.
\<close>

theorem block_encoding_formats:
  "(small_target p \<longrightarrow>
      encode_block p s addr =
        Some (addr_byte 0 addr # addr_byte 1 addr # ihex_get_data s addr (block_size p),
              2 + block_size p)) \<and>
   (medium_target p \<longrightarrow>
      encode_block p s addr =
        Some (addr_byte 1 addr # addr_byte 2 addr # ihex_get_data s addr (block_size p),
              2 + block_size p)) \<and>
   (large_target p \<longrightarrow>
      encode_block p s addr =
        Some (addr_byte 0 addr # addr_byte 1 addr # addr_byte 2 addr # replicate 61 0
                @ ihex_get_data s addr (block_size p),
              64 + block_size p)) \<and>
   (\<not> small_target p \<and> \<not> medium_target p \<and> \<not> large_target p \<longrightarrow>
      encode_block p s addr = None) \<and>
   \<not> (small_target p \<and> medium_target p) \<and>
   \<not> (small_target p \<and> large_target p) \<and>
   \<not> (medium_target p \<and> large_target p) \<and>
   (0 \<le> block_size p \<longrightarrow>
      (\<forall>buf n. encode_block p s addr = Some (buf, n) \<longrightarrow> int (length buf) = n))"
proof (intro conjI impI allI)
  assume "small_target p"
  then show "encode_block p s addr =
        Some (addr_byte 0 addr # addr_byte 1 addr # ihex_get_data s addr (block_size p),
              2 + block_size p)"
    by (simp add: encode_block_def small_target_def addr_byte_def and_255 drop_bit_eq_div)
next
  assume "medium_target p"
  then show "encode_block p s addr =
        Some (addr_byte 1 addr # addr_byte 2 addr # ihex_get_data s addr (block_size p),
              2 + block_size p)"
    by (simp add: encode_block_def medium_target_def addr_byte_def and_255 drop_bit_eq_div)
next
  assume "large_target p"
  then show "encode_block p s addr =
        Some (addr_byte 0 addr # addr_byte 1 addr # addr_byte 2 addr # replicate 61 0
                @ ihex_get_data s addr (block_size p),
              64 + block_size p)"
    by (auto simp: encode_block_def large_target_def addr_byte_def and_255 drop_bit_eq_div)
next
  assume "\<not> small_target p \<and> \<not> medium_target p \<and> \<not> large_target p"
  then show "encode_block p s addr = None"
    by (auto simp: encode_block_def small_target_def medium_target_def large_target_def)
next
  show "\<not> (small_target p \<and> medium_target p)"
    by (simp add: small_target_def medium_target_def)
  show "\<not> (small_target p \<and> large_target p)"
    by (auto simp: small_target_def large_target_def)
  show "\<not> (medium_target p \<and> large_target p)"
    by (auto simp: medium_target_def large_target_def)
next
  fix buf n
  assume "0 \<le> block_size p" "encode_block p s addr = Some (buf, n)"
  then show "int (length buf) = n"
    by (auto simp: encode_block_def length_ihex_get_data split: if_splits)
qed

theorem block_encoding_formats_witness:
  "small_target \<lparr>code_size = 32256, block_size = 128\<rparr> \<and>
   encode_block \<lparr>code_size = 32256, block_size = 128\<rparr> reset_state 0x1280 =
     Some (0x80 # 0x12 # ihex_get_data reset_state 0x1280 128, 130) \<and>
   medium_target \<lparr>code_size = 130048, block_size = 256\<rparr> \<and>
   encode_block \<lparr>code_size = 130048, block_size = 256\<rparr> reset_state 0x012300 =
     Some (0x23 # 0x01 # ihex_get_data reset_state 0x012300 256, 258) \<and>
   large_target \<lparr>code_size = 131072, block_size = 1024\<rparr> \<and>
   encode_block \<lparr>code_size = 131072, block_size = 1024\<rparr> reset_state 0x012400 =
     Some (0x00 # 0x24 # 0x01 # replicate 61 0 @ ihex_get_data reset_state 0x012400 1024, 1088) \<and>
   encode_block \<lparr>code_size = 131072, block_size = 128\<rparr> reset_state 0 = None"
  using block_encoding_formats [of "\<lparr>code_size = 32256, block_size = 128\<rparr>" reset_state "0x1280"]
    block_encoding_formats [of "\<lparr>code_size = 130048, block_size = 256\<rparr>" reset_state "0x012300"]
    block_encoding_formats [of "\<lparr>code_size = 131072, block_size = 1024\<rparr>" reset_state "0x012400"]
    block_encoding_formats [of "\<lparr>code_size = 131072, block_size = 128\<rparr>" reset_state 0]
  by (simp add: small_target_def medium_target_def large_target_def addr_byte_def)

text \<open>
  C2, as amended. For every query with \<^verbatim>\<open>addr\<close> and \<^verbatim>\<open>len\<close> not negative and
  \<^verbatim>\<open>addr + len\<close> below \<^verbatim>\<open>MAX_MEMORY_SIZE\<close>, \<^verbatim>\<open>ihex_get_data\<close> returns \<^verbatim>\<open>len\<close>
  bytes, at each position 0xFF if the flag of that address is clear (never written) and
  the stored byte otherwise; the result is a function of the image alone, the call
  changes nothing, so the order of queries does not matter. Whenever \<^verbatim>\<open>addr + len\<close>
  reaches or exceeds \<^verbatim>\<open>MAX_MEMORY_SIZE\<close> (and is an \<^verbatim>\<open>int32_t\<close>), the buffer is filled
  with 0xFF.
\<close>

theorem get_data_reads:
  "(0 \<le> addr \<and> 0 \<le> len \<and> addr + len < int MAX_MEMORY_SIZE \<longrightarrow>
      length (ihex_get_data s addr len) = nat len \<and>
      (\<forall>i < nat len.
         ihex_get_data s addr len ! i =
           (if firmware_mask s (nat addr + i) = 0 then 0xFF
            else firmware_image s (nat addr + i)))) \<and>
   (int MAX_MEMORY_SIZE \<le> addr + len \<and> addr + len < 2 ^ 31 \<longrightarrow>
      ihex_get_data s addr len = replicate (nat len) 0xFF)"
proof (intro conjI impI allI)
  assume a: "0 \<le> addr \<and> 0 \<le> len \<and> addr + len < int MAX_MEMORY_SIZE"
  show "length (ihex_get_data s addr len) = nat len"
    by (rule length_ihex_get_data)
  fix i
  assume "i < nat len"
  then show "ihex_get_data s addr len ! i =
           (if firmware_mask s (nat addr + i) = 0 then 0xFF
            else firmware_image s (nat addr + i))"
    using a by (simp add: ihex_get_data_def get_data_loop_nth)
next
  assume "int MAX_MEMORY_SIZE \<le> addr + len \<and> addr + len < 2 ^ 31"
  then show "ihex_get_data s addr len = replicate (nat len) 0xFF"
    by (simp add: ihex_get_data_def)
qed

theorem get_data_reads_witness:
  "ihex_get_data top_byte_written 0xFFFFFD 2 = [0xFF, 0x41] \<and>
   ihex_get_data top_byte_written 0xFFFFFE 3 = [0xFF, 0xFF, 0xFF]"
  using get_data_reads [of "0xFFFFFD" 2 top_byte_written]
    get_data_reads [of "0xFFFFFE" 3 top_byte_written]
  by (simp add: top_byte_written_def reset_state_def get_data_eval)

text \<open>
  C2 as stated fails where the range ends exactly at the capacity: the two lines above
  store 0x41 at 0xFFFFFE, the query (0xFFFFFE, 2) lies within the image, and the buffer
  returned is all 0xFF, the guard of \<^verbatim>\<open>ihex_get_data\<close> being
  \<^verbatim>\<open>addr + len >= MAX_MEMORY_SIZE\<close>.
\<close>

theorem get_data_top_of_image:
  "ihex_parse_line \<lparr>code_size = 2031616, block_size = 1024\<rparr> '':0200000400FFFB'' reset_state =
     Inr (1, reset_state\<lparr>extended_addr := 0xFF0000\<rparr>) \<and>
   ihex_parse_line \<lparr>code_size = 2031616, block_size = 1024\<rparr> '':01FFFE0041C1''
     (reset_state\<lparr>extended_addr := 0xFF0000\<rparr>) = Inr (1, top_byte_written) \<and>
   firmware_mask top_byte_written 0xFFFFFE = 1 \<and>
   firmware_image top_byte_written 0xFFFFFE = 0x41 \<and>
   (0xFFFFFE :: int) + 2 \<le> int MAX_MEMORY_SIZE \<and>
   ihex_get_data top_byte_written 0xFFFFFE 2 = [0xFF, 0xFF]"
  by (simp add: top_byte_written_def reset_state_def get_data_eval line_eval scan_eval
      linear_base_def)

text \<open>
  C6. A type-04 record with two value bytes and a valid checksum that passes the
  address-range gate, parsed under a profile with \<^verbatim>\<open>code_size > 1048576\<close> and
  \<^verbatim>\<open>block_size >= 1024\<close>, sets the extended address base to the value shifted left by
  16, less 0x60000000 exactly when the shifted value lies in
  \<^verbatim>\<open>[0x60000000, 0x60000000 + code_size)\<close>; with the value 0x6000 the base becomes 0,
  not 0x60000000.
\<close>

theorem linear_address_offset:
  assumes "list_all xpair [L, AH, AL, T, V1, V2, CK]" "byte_of L = 2" "byte_of T = 4"
    and "checksum_ok [L, AH, AL, T, V1, V2, CK]"
    and "unat (extended_addr s) + nat (256 * byte_of AH + byte_of AL) + 2 < MAX_MEMORY_SIZE"
    and "1048576 < code_size p" "code_size p < 2 ^ 31" "1024 \<le> block_size p"
  shows "ihex_parse_line p (hex_line [L, AH, AL, T, V1, V2, CK] tail) s =
           Inr (1, s\<lparr>extended_addr :=
                  (if 0x60000000 \<le> (256 * byte_of V1 + byte_of V2) * 65536 \<and>
                      (256 * byte_of V1 + byte_of V2) * 65536 < 0x60000000 + code_size p
                   then word_of_int ((256 * byte_of V1 + byte_of V2) * 65536 - 0x60000000)
                   else word_of_int ((256 * byte_of V1 + byte_of V2) * 65536))\<rparr>) \<and>
         (256 * byte_of V1 + byte_of V2 = 0x6000 \<longrightarrow>
            ihex_parse_line p (hex_line [L, AH, AL, T, V1, V2, CK] tail) s =
              Inr (1, s\<lparr>extended_addr := 0\<rparr>))"
proof -
  have x: "xpair L" "xpair AH" "xpair AL" "xpair T" "xpair V1" "xpair V2" "xpair CK"
    using assms(1) by simp_all
  note r = byte_of_range [OF x(5)] byte_of_range [OF x(6)]
  define v where "v = 256 * byte_of V1 + byte_of V2"
  have v: "0 \<le> v" "v < 65536" unfolding v_def using r by simp_all
  have cs: "0 < code_size p" using assms(6) by simp
  have lb: "linear_base p v =
      (if 0x60000000 \<le> v * 65536 \<and> v * 65536 < 0x60000000 + code_size p
       then word_of_int (v * 65536 - 0x60000000) else word_of_int (v * 65536))"
    unfolding linear_base_value [OF v cs assms(7)] using assms(6,8) by simp
  have main: "ihex_parse_line p (hex_line [L, AH, AL, T, V1, V2, CK] tail) s =
      Inr (1, s\<lparr>extended_addr := linear_base p v\<rparr>)"
    unfolding parse_ext_line [OF x assms(2) disjI2 [OF assms(3)] assms(5)] v_def
    using assms(3,4) by simp
  have at: "v = 0x6000 \<Longrightarrow> linear_base p v = 0"
    unfolding lb using assms(6) by simp
  show ?thesis
    unfolding v_def [symmetric] main using lb at by simp
qed

theorem linear_address_offset_witness:
  "ihex_parse_line \<lparr>code_size = 2031616, block_size = 1024\<rparr> '':0200000460009A'' reset_state =
     Inr (1, reset_state\<lparr>extended_addr := 0\<rparr>) \<and>
   ihex_parse_line \<lparr>code_size = 2031616, block_size = 1024\<rparr> '':0200000460207A'' reset_state =
     Inr (1, reset_state\<lparr>extended_addr := 0x60200000\<rparr>)"
proof -
  let ?p = "\<lparr>code_size = 2031616, block_size = 1024\<rparr>"
  let ?a = "[(CHR ''0'', CHR ''2''), (CHR ''0'', CHR ''0''), (CHR ''0'', CHR ''0''),
      (CHR ''0'', CHR ''4''), (CHR ''6'', CHR ''0''), (CHR ''0'', CHR ''0''), (CHR ''9'', CHR ''A'')]"
  let ?b = "[(CHR ''0'', CHR ''2''), (CHR ''0'', CHR ''0''), (CHR ''0'', CHR ''0''),
      (CHR ''0'', CHR ''4''), (CHR ''6'', CHR ''0''), (CHR ''2'', CHR ''0''), (CHR ''7'', CHR ''A'')]"
  have x: "list_all xpair ?a" "list_all xpair ?b"
    by (simp_all add: xpair_def isxdigit_def)
  have l: "byte_of (CHR ''0'', CHR ''2'') = 2" and t: "byte_of (CHR ''0'', CHR ''4'') = 4"
    by (simp_all add: byte_of_def xdigit_val_def)
  have c: "checksum_ok ?a" "checksum_ok ?b"
    by (simp_all add: checksum_ok_def byte_of_def xdigit_val_def)
  have f: "unat (extended_addr reset_state)
      + nat (256 * byte_of (CHR ''0'', CHR ''0'') + byte_of (CHR ''0'', CHR ''0'')) + 2
      < MAX_MEMORY_SIZE"
    by (simp add: reset_state_def MAX_MEMORY_SIZE_def byte_of_def xdigit_val_def)
  have p: "1048576 < code_size ?p" "code_size ?p < 2 ^ 31" "1024 \<le> block_size ?p"
    by simp_all
  show ?thesis
    using linear_address_offset [OF x(1) l t c(1) f p, of "[]"]
      linear_address_offset [OF x(2) l t c(2) f p, of "[]"]
    by (simp add: hex_line_def hex_text_def byte_of_def xdigit_val_def)
qed

text \<open>
  C3, as amended. For every structurally well-formed data record (\<open>data_record\<close>: hex
  digits only, declared length equal to the number of data bytes, type 00, address in
  range), whatever follows the checksum on the line, \<^verbatim>\<open>ihex_parse_line\<close> returns 1 if
  the checksum invariant holds and 0 if it does not. Replacing one address byte, one
  data byte or the checksum byte of a record whose checksum holds by a different byte,
  written as two hex digits, makes it return 0.
\<close>

theorem data_line_checksum:
  assumes "data_record (extended_addr s) bs"
  shows "return_value (ihex_parse_line p (hex_line bs tail) s)
           = Some (if checksum_ok bs then 1 else 0) \<and>
         (checksum_ok bs \<and> (k = 1 \<or> k = 2 \<or> (4 \<le> k \<and> k < length bs)) \<and> xpair q \<and>
            byte_of q \<noteq> byte_of (bs ! k) \<longrightarrow>
          return_value (ihex_parse_line p (hex_line (bs[k := q]) tail) s) = Some 0)"
proof (intro conjI impI)
  have x: "list_all xpair bs" and n: "5 \<le> length bs"
    and l: "byte_of (bs ! 0) = int (length bs) - 5" and t: "byte_of (bs ! 3) = 0"
    and fits: "unat (extended_addr s) + nat (record_addr bs) + (length bs - 5) < MAX_MEMORY_SIZE"
    using assms by (auto simp: data_record_def)
  have e: "unat (extended_addr s) \<le> 0xFFFEFF00"
    using fits by (simp add: MAX_MEMORY_SIZE_def)
  show "return_value (ihex_parse_line p (hex_line bs tail) s)
           = Some (if checksum_ok bs then 1 else 0)"
    using fits by (simp add: parse_data_record [OF x n l t e] return_value_def)
  assume c: "checksum_ok bs \<and> (k = 1 \<or> k = 2 \<or> (4 \<le> k \<and> k < length bs)) \<and> xpair q \<and>
            byte_of q \<noteq> byte_of (bs ! k)"
  then have k: "k < length bs" "k \<noteq> 0" "k \<noteq> 3" using n by auto
  have "set (bs[k := q]) \<subseteq> insert q (set bs)"
    by (rule set_update_subset_insert)
  then have x': "list_all xpair (bs[k := q])"
    using x c by (auto simp: list_all_iff)
  have n': "5 \<le> length (bs[k := q])" using n by simp
  have l': "byte_of (bs[k := q] ! 0) = int (length (bs[k := q])) - 5"
    using l k by simp
  have t': "byte_of (bs[k := q] ! 3) = 0" using t k by simp
  have "\<not> checksum_ok (bs[k := q])"
    using c k x by (intro checksum_broken) simp_all
  then show "return_value (ihex_parse_line p (hex_line (bs[k := q]) tail) s) = Some 0"
    by (simp add: parse_data_record [OF x' n' l' t' e] return_value_def)
qed

theorem data_line_checksum_witness:
  "data_record (extended_addr reset_state)
     [(CHR ''0'', CHR ''1''), (CHR ''0'', CHR ''0''), (CHR ''0'', CHR ''0''),
      (CHR ''0'', CHR ''0''), (CHR ''4'', CHR ''1''), (CHR ''B'', CHR ''E'')] \<and>
   checksum_ok
     [(CHR ''0'', CHR ''1''), (CHR ''0'', CHR ''0''), (CHR ''0'', CHR ''0''),
      (CHR ''0'', CHR ''0''), (CHR ''4'', CHR ''1''), (CHR ''B'', CHR ''E'')] \<and>
   return_value (ihex_parse_line \<lparr>code_size = 32256, block_size = 128\<rparr>
     '':0100000041BE'' reset_state) = Some 1 \<and>
   return_value (ihex_parse_line \<lparr>code_size = 32256, block_size = 128\<rparr>
     '':0100000042BE'' reset_state) = Some 0"
proof -
  let ?bs = "[(CHR ''0'', CHR ''1''), (CHR ''0'', CHR ''0''), (CHR ''0'', CHR ''0''),
      (CHR ''0'', CHR ''0''), (CHR ''4'', CHR ''1''), (CHR ''B'', CHR ''E'')]"
  have d: "data_record (extended_addr reset_state) ?bs"
    by (simp add: data_record_def record_addr_def xpair_def byte_of_def isxdigit_def
        xdigit_val_def reset_state_def MAX_MEMORY_SIZE_def)
  have c: "checksum_ok ?bs"
    by (simp add: checksum_ok_def byte_of_def xdigit_val_def)
  have q: "xpair (CHR ''4'', CHR ''2'')"
    "byte_of (CHR ''4'', CHR ''2'') \<noteq> byte_of (?bs ! 4)"
    by (simp_all add: xpair_def byte_of_def isxdigit_def xdigit_val_def)
  show ?thesis
    using d c q
      data_line_checksum [OF d, of "\<lparr>code_size = 32256, block_size = 128\<rparr>" "[]" 4
        "(CHR ''4'', CHR ''2'')"]
    by (simp add: hex_line_def hex_text_def)
qed

text \<open>
  C3 as stated fails in three ways. \<^verbatim>\<open>:0100000000FF\<close> is a well-formed data record
  with a valid checksum and is accepted; with its type byte changed to 01
  (\<^verbatim>\<open>:0100000100FF\<close>) it is accepted as the end-of-file record, no checksum being
  tested on a non-data line; with its length byte changed to 00
  (\<^verbatim>\<open>:0000000000FF\<close>) it is accepted as an empty data record whose checksum is read
  from the old data byte. \<^verbatim>\<open>:0112000041AC\<close> is valid too, and with its low address
  byte 00 changed to the characters Z0 (\<^verbatim>\<open>:0112Z00041AC\<close>) it is still accepted:
  \<^verbatim>\<open>%04x\<close> stops at the Z and reads the address 0x12, which leaves the sum as it was.
\<close>

theorem corrupted_byte_accepted:
  "data_record (extended_addr reset_state)
     [(CHR ''0'', CHR ''1''), (CHR ''0'', CHR ''0''), (CHR ''0'', CHR ''0''),
      (CHR ''0'', CHR ''0''), (CHR ''0'', CHR ''0''), (CHR ''F'', CHR ''F'')] \<and>
   checksum_ok
     [(CHR ''0'', CHR ''1''), (CHR ''0'', CHR ''0''), (CHR ''0'', CHR ''0''),
      (CHR ''0'', CHR ''0''), (CHR ''0'', CHR ''0''), (CHR ''F'', CHR ''F'')] \<and>
   hex_line
     [(CHR ''0'', CHR ''1''), (CHR ''0'', CHR ''0''), (CHR ''0'', CHR ''0''),
      (CHR ''0'', CHR ''0''), (CHR ''0'', CHR ''0''), (CHR ''F'', CHR ''F'')] [] = '':0100000000FF'' \<and>
   return_value (ihex_parse_line \<lparr>code_size = 32256, block_size = 128\<rparr>
     '':0100000000FF'' reset_state) = Some 1 \<and>
   return_value (ihex_parse_line \<lparr>code_size = 32256, block_size = 128\<rparr>
     '':0100000100FF'' reset_state) = Some 1 \<and>
   return_value (ihex_parse_line \<lparr>code_size = 32256, block_size = 128\<rparr>
     '':0000000000FF'' reset_state) = Some 1 \<and>
   data_record (extended_addr reset_state)
     [(CHR ''0'', CHR ''1''), (CHR ''1'', CHR ''2''), (CHR ''0'', CHR ''0''),
      (CHR ''0'', CHR ''0''), (CHR ''4'', CHR ''1''), (CHR ''A'', CHR ''C'')] \<and>
   checksum_ok
     [(CHR ''0'', CHR ''1''), (CHR ''1'', CHR ''2''), (CHR ''0'', CHR ''0''),
      (CHR ''0'', CHR ''0''), (CHR ''4'', CHR ''1''), (CHR ''A'', CHR ''C'')] \<and>
   return_value (ihex_parse_line \<lparr>code_size = 32256, block_size = 128\<rparr>
     '':0112000041AC'' reset_state) = Some 1 \<and>
   return_value (ihex_parse_line \<lparr>code_size = 32256, block_size = 128\<rparr>
     '':0112Z00041AC'' reset_state) = Some 1"
  by (simp add: data_record_def record_addr_def xpair_def byte_of_def checksum_ok_def
      hex_line_def hex_text_def return_value_def reset_state_def line_eval scan_eval)




subsection \<open>C7: extended-address records are permissive\<close>




subsection \<open>C10: the gate once the base is beyond the image\<close>




subsection \<open>C9: where \<^verbatim>\<open>ihex_read\<close> stops reading\<close>




subsection \<open>C4: a failed hard reboot\<close>

text \<open>
  Claim C4, as the code has it. In a pass of the discovery loop where \<^verbatim>\<open>teensy_open\<close>
  has failed and a hard reboot is pending: if \<^verbatim>\<open>teensy_hard_reboot\<close> fails, the run
  ends there with the message of \<^verbatim>\<open>die\<close>, after exactly the calls \<^verbatim>\<open>teensy_open\<close> and
  \<^verbatim>\<open>teensy_hard_reboot\<close> of that pass; if it succeeds, the request is cleared, waiting for the
  device is switched on and the loop goes on. In every run that leaves the loop,
  \<^verbatim>\<open>teensy_hard_reboot\<close> was called at most once. A failed soft reboot does not end the
  run: the request is cleared, waiting is switched on, and the pass ends with the sleep.
\<close>

theorem hard_reboot_failure_aborts:
  "(\<not> found d \<and> exited d = None \<and> teensy_open (usb (passes d)) = 0 \<and>
    teensy_hard_reboot_device d \<and> teensy_hard_reboot (usb (passes d)) = 0 \<longrightarrow>
      discover usb d =
        Some (d\<lparr>calls := calls d @ [Open 0, HardReboot 0], passes := Suc (passes d),
                exited := Some ''unable to find rebootor''\<rparr>)) \<and>
   (\<not> found d \<and> exited d = None \<and> teensy_open (usb (passes d)) = 0 \<and>
    teensy_hard_reboot_device d \<and> teensy_hard_reboot (usb (passes d)) \<noteq> 0 \<longrightarrow>
      \<not> teensy_hard_reboot_device (discovery_pass usb d) \<and>
      wait_for_device_to_appear (discovery_pass usb d) \<and>
      exited (discovery_pass usb d) = None \<and> \<not> found (discovery_pass usb d) \<and>
      hard_reboots (discovery_pass usb d) = hard_reboots d @ [HardReboot 1]) \<and>
   (discover usb (start_discovery w r sft) = Some d' \<longrightarrow> length (hard_reboots d') \<le> 1) \<and>
   (\<not> found d \<and> exited d = None \<and> teensy_open (usb (passes d)) = 0 \<and>
    \<not> teensy_hard_reboot_device d \<and> teensy_soft_reboot_device d \<and> teensy_soft_reboot (usb (passes d)) = 0 \<longrightarrow>
      discovery_pass usb d =
        d\<lparr>calls := calls d @ [Open 0, SoftReboot 0, Sleep 250000], passes := Suc (passes d),
          teensy_soft_reboot_device := False, wait_for_device_to_appear := True,
          waited := True\<rparr>)"
  using hard_reboot_failure_run [where usb = usb and d = d]
    hard_reboot_success_pass [where usb = usb and d = d]
    hard_reboot_once_run [where usb = usb and w = w and r = r and sft = sft and d = d']
    soft_reboot_failure_pass [where usb = usb and d = d]
  by blast

theorem hard_reboot_failure_aborts_witness:
  "discover (\<lambda>n. \<lparr>bootloader_opens = False, rebootor_opens = False, rebootor_msg = 0,
                   serial_opens = False, serial_msg = 0\<rparr>) (start_discovery False True False) =
     Some ((start_discovery False True False)
        \<lparr>calls := [Open 0, HardReboot 0], passes := 1,
          exited := Some ''unable to find rebootor''\<rparr>) \<and>
   hard_reboots (discovery_pass
       (\<lambda>n. \<lparr>bootloader_opens = 0 < n, rebootor_opens = True, rebootor_msg = 6,
              serial_opens = False, serial_msg = 0\<rparr>) (start_discovery False True False)) =
     [HardReboot 1] \<and>
   discover (\<lambda>n. \<lparr>bootloader_opens = 0 < n, rebootor_opens = True, rebootor_msg = 6,
                   serial_opens = False, serial_msg = 0\<rparr>) (start_discovery False True False) =
     Some \<lparr>wait_for_device_to_appear = True, teensy_hard_reboot_device = False,
           teensy_soft_reboot_device = False, waited = True,
           calls = [Open 0, HardReboot 1, Sleep 250000, Open 1], passes = 2,
           found = True, exited = None\<rparr> \<and>
   length (hard_reboots \<lparr>wait_for_device_to_appear = True, teensy_hard_reboot_device = False,
           teensy_soft_reboot_device = False, waited = True,
           calls = [Open 0, HardReboot 1, Sleep 250000, Open 1], passes = 2,
           found = True, exited = None\<rparr>) \<le> 1 \<and>
   discovery_pass (\<lambda>n. \<lparr>bootloader_opens = False, rebootor_opens = False, rebootor_msg = 0,
                   serial_opens = False, serial_msg = 0\<rparr>) (start_discovery False False True) =
     (start_discovery False False True)
        \<lparr>calls := [Open 0, SoftReboot 0, Sleep 250000], passes := 1,
          teensy_soft_reboot_device := False, wait_for_device_to_appear := True,
          waited := True\<rparr>"
proof -
  let ?none = "\<lambda>n :: nat. \<lparr>bootloader_opens = False, rebootor_opens = False, rebootor_msg = 0,
                   serial_opens = False, serial_msg = 0\<rparr>"
  let ?reb = "\<lambda>n :: nat. \<lparr>bootloader_opens = 0 < n, rebootor_opens = True, rebootor_msg = 6,
              serial_opens = False, serial_msg = 0\<rparr>"
  let ?d2 = "\<lparr>wait_for_device_to_appear = True, teensy_hard_reboot_device = False,
           teensy_soft_reboot_device = False, waited = True,
           calls = [Open 0, HardReboot 1, Sleep 250000, Open 1], passes = 2,
           found = True, exited = None\<rparr>"
  have run: "discover ?reb (start_discovery False True False) = Some ?d2"
    by (simp add: discover_def while_option_unfold stage_defs usb_eval)
  have 1: "discover ?none (start_discovery False True False) =
     Some ((start_discovery False True False)
        \<lparr>calls := [Open 0, HardReboot 0], passes := 1,
          exited := Some ''unable to find rebootor''\<rparr>)"
    using hard_reboot_failure_aborts [where usb = ?none and d = "start_discovery False True False"]
    by (simp add: usb_eval)
  have 2: "hard_reboots (discovery_pass ?reb (start_discovery False True False)) = [HardReboot 1]"
    using hard_reboot_failure_aborts [where usb = ?reb and d = "start_discovery False True False"]
    by (simp add: usb_eval hard_reboots_def)
  have 3: "length (hard_reboots ?d2) \<le> 1"
    using hard_reboot_failure_aborts [where usb = ?reb and w = False and r = True
        and sft = False and d' = ?d2] run
    by blast
  have 4: "discovery_pass ?none (start_discovery False False True) =
     (start_discovery False False True)
        \<lparr>calls := [Open 0, SoftReboot 0, Sleep 250000], passes := 1,
          teensy_soft_reboot_device := False, wait_for_device_to_appear := True,
          waited := True\<rparr>"
    using hard_reboot_failure_aborts [where usb = ?none and d = "start_discovery False False True"]
    by (simp add: usb_eval)
  from 1 2 run 3 4 show ?thesis by blast
qed

text \<open>
  Claim C4 as worded does not hold: line 102 is
  \<^verbatim>\<open>if (!teensy_hard_reboot()) die("unable to find rebootor\n")\<close>. With \<^verbatim>\<open>-w -r\<close>, no
  rebootor on the bus and a bootloader that appears for the second pass, the run ends in
  the first pass; with \<^verbatim>\<open>-w\<close> alone the same bus lets the run find the bootloader.
\<close>

theorem failed_hard_reboot_ends_run:
  "discover (\<lambda>n. \<lparr>bootloader_opens = 0 < n, rebootor_opens = False, rebootor_msg = 0,
                   serial_opens = False, serial_msg = 0\<rparr>) (start_discovery True True False) =
     Some \<lparr>wait_for_device_to_appear = True, teensy_hard_reboot_device = True,
           teensy_soft_reboot_device = False, waited = False,
           calls = [Open 0, HardReboot 0], passes = 1,
           found = False, exited = Some ''unable to find rebootor''\<rparr> \<and>
   discover (\<lambda>n. \<lparr>bootloader_opens = 0 < n, rebootor_opens = False, rebootor_msg = 0,
                   serial_opens = False, serial_msg = 0\<rparr>) (start_discovery True False False) =
     Some \<lparr>wait_for_device_to_appear = True, teensy_hard_reboot_device = False,
           teensy_soft_reboot_device = False, waited = True,
           calls = [Open 0, Sleep 250000, Open 1], passes = 2,
           found = True, exited = None\<rparr>"
  by (simp add: discover_def while_option_unfold stage_defs usb_eval)

subsection \<open>C5: blocks without data are skipped\<close>

text \<open>
  Claim C5. For every programmable profile (positive code and block size, one of the
  three block formats, no \<^verbatim>\<open>int32_t\<close> overflow of \<^verbatim>\<open>addr + block_size\<close>), every image and
  every behaviour of the device, the programming loop ends; it has called
  \<^verbatim>\<open>teensy_write\<close> at least once; its first call carries block 0 as encoded from the
  image, written or not, with the long timeout; and every later call carries a block in
  which some address was written with a value other than 0xFF. So no call after the first
  is for a block without written bytes or with written bytes that are all 0xFF. Every
  entry of the MCU table, from which \<^verbatim>\<open>main\<close> takes the profile, is programmable.
\<close>

theorem blank_blocks_skipped:
  "(programmable p \<longrightarrow>
      (\<exists>g buf n. program_loop p s device (start_programming p) = Some g \<and>
         encode_block p s 0 = Some (buf, n) \<and>
         writes g \<noteq> [] \<and> hd (writes g) = Write 0 buf n 5000 \<and>
         list_all (\<lambda>w. block_has_data s (write_addr w) (block_size p)) (tl (writes g)))) \<and>
   list_all (\<lambda>m. programmable (mcu_profile m)) MCUs"
proof (intro conjI impI)
  assume "programmable p"
  then have cs: "0 < code_size p" and bs: "0 < block_size p"
    and sup: "small_target p \<or> medium_target p \<or> large_target p"
    by (simp_all add: programmable_def)
  have i: "write_invariant p s (start_programming p)"
    by (simp add: write_invariant_def start_programming_def)
  obtain g where r: "program_loop p s device (start_programming p) = Some g"
    using program_loop_total [OF bs sup i] by blast
  have j: "write_invariant p s g" and stop: "\<not> (failed g = None \<and> cur_addr g < code_size p)"
    using program_loop_invariant [OF bs sup i r] by simp_all
  have w: "writes g \<noteq> []"
  proof
    assume "writes g = []"
    then have "first_block g \<noteq> 0 \<and> failed g = None" using j by (auto simp: write_invariant_def)
    then have "cur_addr g = 0" "failed g = None" using j by (auto simp: write_invariant_def)
    then show False using stop cs by simp
  qed
  then obtain buf n where "encode_block p s 0 = Some (buf, n)" "hd (writes g) = Write 0 buf n 5000"
    using j by (auto simp: write_invariant_def)
  moreover have "list_all (\<lambda>w. block_has_data s (write_addr w) (block_size p)) (tl (writes g))"
    using j by (simp add: write_invariant_def)
  ultimately show "\<exists>g buf n. program_loop p s device (start_programming p) = Some g \<and>
         encode_block p s 0 = Some (buf, n) \<and>
         writes g \<noteq> [] \<and> hd (writes g) = Write 0 buf n 5000 \<and>
         list_all (\<lambda>w. block_has_data s (write_addr w) (block_size p)) (tl (writes g))"
    using r w by blast
next
  show "list_all (\<lambda>m. programmable (mcu_profile m)) MCUs"
    by (rule mcus_programmable)
qed

theorem blank_blocks_skipped_witness:
  "program_loop \<lparr>code_size = 16, block_size = 4\<rparr> sparse_image (\<lambda>k. True)
       (start_programming \<lparr>code_size = 16, block_size = 4\<rparr>) =
     Some \<lparr>cur_addr = 16, first_block = 0, write_size = 6,
           writes = [Write 0 [0, 0, 255, 255, 255, 255] 6 5000,
                     Write 8 [8, 0, 0x41, 255, 255, 255] 6 500],
           failed = None\<rparr> \<and>
   block_has_data sparse_image 8 4 \<and> \<not> block_has_data sparse_image 0 4 \<and>
   \<not> block_has_data sparse_image 4 4 \<and> \<not> block_has_data sparse_image 12 4"
proof -
  let ?p = "\<lparr>code_size = 16, block_size = 4\<rparr>"
  let ?g = "\<lparr>cur_addr = 16, first_block = 0, write_size = 6,
           writes = [Write 0 [0, 0, 255, 255, 255, 255] 6 5000,
                     Write 8 [8, 0, 0x41, 255, 255, 255] 6 500],
           failed = None\<rparr>"
  have run: "program_loop ?p sparse_image (\<lambda>k. True) (start_programming ?p) = Some ?g"
    by (simp add: program_eval sparse_image_def)
  have h: "programmable ?p"
    by (simp add: programmable_def small_target_def)
  from blank_blocks_skipped [of ?p sparse_image "\<lambda>k. True"] h run
  have "list_all (\<lambda>w. block_has_data sparse_image (write_addr w) (block_size ?p)) (tl (writes ?g))"
    by auto
  then have 1: "block_has_data sparse_image 8 4" by simp
  have 2: "\<not> block_has_data sparse_image 0 4" "\<not> block_has_data sparse_image 4 4"
    "\<not> block_has_data sparse_image 12 4"
    by (simp_all add: block_has_data_def sparse_image_def reset_state_def upto.simps)
  from run 1 2 show ?thesis by blast
qed

end
